theory Spec2Isabelle
  imports Complex_Main "HOL-Library.Log_Nat" "HOL-Library.Sublist"
begin

section \<open>Data model (the type declarations of \<open>lib/types\<close>, in src/unnamed/part_000)\<close>

text \<open>
  The TypeScript interfaces become records. A field whose source name clashes with a
  constant of HOL or with a field of another record carries a short prefix
  (\<open>id\<close> becomes \<open>txn_id\<close>, \<open>type\<close> becomes \<open>txn_type\<close>, and so on); every
  other field keeps its name. \<open>string | null\<close> and an optional member are
  \<open>option\<close> types. A \<open>number\<close> is the rational value of a double; the arithmetic of
  the language on such values follows the records.
\<close>

datatype TransactionType = Income | Expense

datatype CategoryGroup = Fixed | Variable | Transfers

record Category =
  cat_id :: string
  cat_user_id :: string
  cat_name :: string
  cat_icon :: string
  cat_color :: string
  cat_type :: TransactionType
  category_group :: CategoryGroup
  is_default :: bool
  cat_created_at :: string

record Transaction =
  txn_id :: string
  user_id :: string
  category_id :: "string option"
  amount :: rat
  txn_type :: TransactionType
  description :: "string option"
  date :: string
  is_recurring :: bool
  recurring_frequency :: "string option"
  next_occurrence :: "string option"
  reminder_enabled :: bool
  reminder_days_before :: int
  created_at :: string
  updated_at :: string
  category :: "Category option"

text \<open>The string a \<open>TransactionType\<close> is at run time (\<open>'income' | 'expense'\<close>).\<close>

fun type_string :: "TransactionType \<Rightarrow> string" where
  "type_string Income = ''income''"
| "type_string Expense = ''expense''"

section \<open>Numbers of the language\<close>

text \<open>
  A \<open>number\<close> is an IEEE 754 double. The model keeps its value, a rational, and writes
  every arithmetic operation of the source as the exact operation followed by the
  rounding of the format: to the nearest value with 53 significant bits, a tie going to
  the even significand. So \<open>a + b\<close> of the source is \<open>fadd a b\<close>, and sums taken in
  different orders differ as they do in the program. The exponent is not bounded:
  overflow, underflow, infinities, NaN and the sign of zero are outside this
  development.

  \<open>flog2 q\<close> is the exponent of the leading bit of a positive \<open>q\<close>: the bit lengths of
  numerator and denominator give it up to one, and a comparison decides.
\<close>

definition flog2 :: "rat \<Rightarrow> int" where
  "flog2 q =
     (let (a, b) = quotient_of q; k = bitlen a - bitlen b
      in if 2 powi k \<le> q then k else k - 1)"

definition round64 :: "rat \<Rightarrow> rat" where
  "round64 q =
     (if q = 0 then 0
      else let e = flog2 \<bar>q\<bar> - 52;
               s = \<bar>q\<bar> / 2 powi e;
               n = \<lfloor>s\<rfloor>;
               r = s - of_int n;
               m = (if r < 1 / 2 then n else if 1 / 2 < r then n + 1
                    else if even n then n else n + 1)
           in sgn q * of_int m * 2 powi e)"

definition fadd :: "rat \<Rightarrow> rat \<Rightarrow> rat" where
  "fadd x y = round64 (x + y)"

definition fsub :: "rat \<Rightarrow> rat \<Rightarrow> rat" where
  "fsub x y = round64 (x - y)"

definition fmul :: "rat \<Rightarrow> rat \<Rightarrow> rat" where
  "fmul x y = round64 (x * y)"

text \<open>Division; the pages divide by a positive number only.\<close>

definition fdiv :: "rat \<Rightarrow> rat \<Rightarrow> rat" where
  "fdiv x y = round64 (x / y)"

section \<open>The platform the exporters run on\<close>

text \<open>
  Three things the exporters use are not code of the repository: the date library's
  \<open>format(new Date(s), 'yyyy-MM-dd')\<close>, which formats in the time zone of the process;
  the language's conversion of a number to a string (\<open>String(n)\<close> and template
  interpolation), which is the same in every run; and the current date as
  \<open>format(new Date(), 'yyyy-MM-dd')\<close>. They are parameters of the model, collected in
  one record; every theorem below holds for all of them. The date library raises on a
  string that is not a date; the dates of stored transactions are dates, and the
  formatter is taken to return a string for each of them.
\<close>

record platform =
  formatDate :: "string \<Rightarrow> string"
  numberToString :: "rat \<Rightarrow> string"
  todayStr :: string

section \<open>String helpers of the language\<close>

text \<open>
  \<open>s.replace(/c/g, r)\<close> for a one-character pattern: every occurrence of the character
  is replaced, left to right.
\<close>

fun replace_all :: "char \<Rightarrow> string \<Rightarrow> string \<Rightarrow> string" where
  "replace_all c r [] = []"
| "replace_all c r (x # xs) =
     (if x = c then r @ replace_all c r xs else x # replace_all c r xs)"

text \<open>\<open>s.includes(c)\<close> for a one-character needle.\<close>

definition str_includes :: "string \<Rightarrow> char \<Rightarrow> bool" where
  "str_includes s c = (c \<in> set s)"

text \<open>\<open>parts.join(sep)\<close>.\<close>

fun join :: "string \<Rightarrow> string list \<Rightarrow> string" where
  "join sep [] = []"
| "join sep [x] = x"
| "join sep (x # y # ys) = x @ sep @ join sep (y # ys)"

text \<open>
  \<open>x || d\<close> for an optional string \<open>x\<close>: \<open>null\<close>, \<open>undefined\<close> and the empty
  string are all falsy, so each of them yields the default.
\<close>

fun str_or :: "string option \<Rightarrow> string \<Rightarrow> string" where
  "str_or None d = d"
| "str_or (Some s) d = (if s = [] then d else s)"

section \<open>Exporter (\<open>lib/exportUtils\<close>, src/unnamed/part_000)\<close>

definition escapeCSV :: "string \<Rightarrow> string" where
  \<open>escapeCSV v =
     (if str_includes v (CHR '','') \<or> str_includes v (CHR ''"'') \<or> str_includes v (CHR 0x0A)
      then ''"'' @ replace_all (CHR ''"'') ''""'' v @ ''"''
      else v)\<close>

text \<open>
  The Sink. \<open>downloadBlob\<close> wraps the content in a blob of the given MIME type and
  makes the browser save it under the file name. The model keeps the downloads made so
  far as a list and appends to it: a call that never reaches \<open>downloadBlob\<close> returns
  the list it was given.
\<close>

record download =
  blob_content :: string
  blob_type :: string
  download_name :: string

definition downloadBlob :: "string \<Rightarrow> string \<Rightarrow> string \<Rightarrow> download list \<Rightarrow> download list" where
  "downloadBlob content mimeType filename sink =
     sink @ [\<lparr>blob_content = content, blob_type = mimeType, download_name = filename\<rparr>]"

definition headers :: "string list" where
  "headers = [''Date'', ''Type'', ''Category'', ''Amount'', ''Description'', ''Recurring'',
     ''Frequency'']"

text \<open>The row of one transaction in \<open>exportToCSV\<close>; \<open>t.category?.name\<close> is \<open>map_option\<close>.\<close>

definition csvRow :: "platform \<Rightarrow> Transaction \<Rightarrow> string list" where
  "csvRow p t =
     [formatDate p (date t),
      type_string (txn_type t),
      str_or (map_option cat_name (category t)) ''Uncategorized'',
      numberToString p (amount t),
      str_or (description t) [],
      if is_recurring t then ''Yes'' else ''No'',
      str_or (recurring_frequency t) []]"

definition csvContent :: "platform \<Rightarrow> Transaction list \<Rightarrow> string" where
  \<open>csvContent p transactions =
     (let rows = map (csvRow p) transactions
      in join ''\<newline>''
           (join '','' (map escapeCSV headers) #
            map (\<lambda>row. join '','' (map escapeCSV row)) rows))\<close>

definition exportToCSV ::
  "platform \<Rightarrow> Transaction list \<Rightarrow> string option \<Rightarrow> download list \<Rightarrow> download list" where
  "exportToCSV p transactions filename sink =
     (if length transactions = 0 then sink
      else downloadBlob (csvContent p transactions) ''text/csv;charset=utf-8;''
             (str_or filename (''transactions-'' @ todayStr p @ ''.csv'')) sink)"

text \<open>
  The rows of \<open>exportToExcel\<close> hold strings and, in the fourth slot, the amount as a
  number. \<open>cell_string\<close> is \<open>String(cell)\<close>, which template interpolation applies too.
\<close>

datatype cell = Str string | Num rat

fun cell_string :: "platform \<Rightarrow> cell \<Rightarrow> string" where
  "cell_string p (Str s) = s"
| "cell_string p (Num n) = numberToString p n"

definition excelRow :: "platform \<Rightarrow> Transaction \<Rightarrow> cell list" where
  "excelRow p t =
     [Str (formatDate p (date t)),
      Str (type_string (txn_type t)),
      Str (str_or (map_option cat_name (category t)) ''Uncategorized''),
      Num (amount t),
      Str (str_or (description t) []),
      Str (if is_recurring t then ''Yes'' else ''No''),
      Str (str_or (recurring_frequency t) [])]"

text \<open>\<open>row[i]\<close>: \<open>undefined\<close> (here \<open>None\<close>) past the end of the array.\<close>

definition at_index :: "'a list \<Rightarrow> nat \<Rightarrow> 'a option" where
  "at_index xs i = (if i < length xs then Some (xs ! i) else None)"

text \<open>\<open>const style = row[1] === 'income' ? 'income' : 'expense'\<close>.\<close>

definition amountStyle :: "cell list \<Rightarrow> string" where
  "amountStyle row = (if at_index row 1 = Some (Str ''income'') then ''income'' else ''expense'')"

text \<open>The body of \<open>row.forEach((cell, i) => ...)\<close>, on the markup built so far.\<close>

definition excelCell :: "platform \<Rightarrow> cell list \<Rightarrow> string \<Rightarrow> nat \<times> cell \<Rightarrow> string" where
  \<open>excelCell p row xml ic =
     (case ic of (i, c) \<Rightarrow>
        if i = 3
        then xml @ ''        <Cell ss:StyleID="'' @ amountStyle row @
               ''"><Data ss:Type="Number">'' @ cell_string p c @ ''</Data></Cell>\<newline>''
        else xml @ ''        <Cell><Data ss:Type="String">'' @
               replace_all (CHR ''<'') ''&lt;''
                 (replace_all (CHR ''&'') ''&amp;'' (cell_string p c)) @
               ''</Data></Cell>\<newline>'')\<close>

text \<open>The body of \<open>rows.forEach((row) => ...)\<close>.\<close>

definition excelDataRow :: "platform \<Rightarrow> string \<Rightarrow> cell list \<Rightarrow> string" where
  \<open>excelDataRow p xml row =
     foldl (excelCell p row) (xml @ ''      <Row>\<newline>'') (enumerate 0 row) @
     ''      </Row>\<newline>''\<close>

definition excelProlog :: string where
  \<open>excelProlog =
     ''<?xml version="1.0" encoding="UTF-8"?>\<newline>'' @
     ''<?mso-application progid="Excel.Sheet"?>\<newline>'' @
     ''<Workbook xmlns="urn:schemas-microsoft-com:office:spreadsheet"\<newline>'' @
     ''  xmlns:ss="urn:schemas-microsoft-com:office:spreadsheet">\<newline>'' @
     ''  <Styles>\<newline>'' @
     ''    <Style ss:ID="header"><Font ss:Bold="1"/><Interior ss:Color="#E2E8F0" ss:Pattern="Solid"/></Style>\<newline>'' @
     ''    <Style ss:ID="income"><Font ss:Color="#16A34A"/></Style>\<newline>'' @
     ''    <Style ss:ID="expense"><Font ss:Color="#DC2626"/></Style>\<newline>'' @
     ''    <Style ss:ID="number"><NumberFormat ss:Format="#,##0.00"/></Style>\<newline>'' @
     ''  </Styles>\<newline>'' @
     ''  <Worksheet ss:Name="Transactions">\<newline>'' @
     ''    <Table>\<newline>''\<close>

definition excelHeaderCell :: "string \<Rightarrow> string \<Rightarrow> string" where
  \<open>excelHeaderCell xml h =
     xml @ ''        <Cell ss:StyleID="header"><Data ss:Type="String">'' @ h @
     ''</Data></Cell>\<newline>''\<close>

definition excelEpilog :: string where
  \<open>excelEpilog =
     ''    </Table>\<newline>'' @
     ''  </Worksheet>\<newline>'' @
     ''</Workbook>''\<close>

definition excelXml :: "platform \<Rightarrow> Transaction list \<Rightarrow> string" where
  \<open>excelXml p transactions =
     (let rows = map (excelRow p) transactions;
          xml = excelProlog;
          xml = xml @ ''      <Row>\<newline>'';
          xml = foldl excelHeaderCell xml headers;
          xml = xml @ ''      </Row>\<newline>'';
          xml = foldl (excelDataRow p) xml rows
      in xml @ excelEpilog)\<close>

definition exportToExcel ::
  "platform \<Rightarrow> Transaction list \<Rightarrow> string option \<Rightarrow> download list \<Rightarrow> download list" where
  "exportToExcel p transactions filename sink =
     (if length transactions = 0 then sink
      else downloadBlob (excelXml p transactions) ''application/vnd.ms-excel''
             (str_or filename (''transactions-'' @ todayStr p @ ''.xls'')) sink)"

section \<open>Containers of the language used by the aggregation\<close>

text \<open>
  A \<open>Map\<close> keeps its entries in insertion order, and \<open>set\<close> on a key that is present
  replaces the value where it stands. It is modelled as an association list with
  distinct keys; the key type is \<open>string option\<close> because the pages use
  \<open>t.category_id!\<close>, which may be \<open>null\<close>, as the key.
\<close>

type_synonym ('k, 'v) js_map = "('k \<times> 'v) list"

definition Map_get :: "('k, 'v) js_map \<Rightarrow> 'k \<Rightarrow> 'v option" where
  "Map_get m k = map_of m k"

fun Map_set :: "('k, 'v) js_map \<Rightarrow> 'k \<Rightarrow> 'v \<Rightarrow> ('k, 'v) js_map" where
  "Map_set [] k v = [(k, v)]"
| "Map_set ((k', v') # m) k v = (if k' = k then (k, v) # m else (k', v') # Map_set m k v)"

definition Map_values :: "('k, 'v) js_map \<Rightarrow> 'v list" where
  "Map_values m = map snd m"

text \<open>
  \<open>xs.sort(cmp)\<close>. The language guarantees a stable sort; for the comparators of the
  pages (a difference of two amounts) that fixes the result, which is computed here by
  insertion from the right: an element goes before the first element it does not
  compare greater than, so it stays in front of the later elements it ties with.
\<close>

fun insert_by :: "('a \<Rightarrow> 'a \<Rightarrow> rat) \<Rightarrow> 'a \<Rightarrow> 'a list \<Rightarrow> 'a list" where
  "insert_by cmp x [] = [x]"
| "insert_by cmp x (y # ys) =
     (if cmp x y \<le> 0 then x # y # ys else y # insert_by cmp x ys)"

definition Array_sort :: "('a \<Rightarrow> 'a \<Rightarrow> rat) \<Rightarrow> 'a list \<Rightarrow> 'a list" where
  "Array_sort cmp xs = foldr (insert_by cmp) xs []"

text \<open>\<open>Number(x) || d\<close> for an optional number: \<open>undefined\<close> gives NaN, which is falsy as 0 is.\<close>

fun num_or :: "rat option \<Rightarrow> rat \<Rightarrow> rat" where
  "num_or None d = d"
| "num_or (Some n) d = (if n = 0 then d else n)"

section \<open>Aggregation on the Budgets page (src/unnamed/part_001)\<close>

text \<open>
  Of the profile the pages read the monthly budget only. \<open>Number(t.amount)\<close> is the
  amount itself, which is a number already.
\<close>

record Profile =
  monthly_budget :: rat

record BudgetsStats =
  bs_expenses :: rat
  bs_income :: rat
  bs_budget :: rat

definition Budgets_stats :: "Transaction list \<Rightarrow> Profile option \<Rightarrow> BudgetsStats" where
  "Budgets_stats transactions profile =
     (let expenses = foldl (\<lambda>sum t. fadd sum (amount t)) 0
                       (filter (\<lambda>t. txn_type t = Expense) transactions);
          income = foldl (\<lambda>sum t. fadd sum (amount t)) 0
                     (filter (\<lambda>t. txn_type t = Income) transactions)
      in \<lparr>bs_expenses = expenses, bs_income = income,
          bs_budget = num_or (map_option monthly_budget profile) 0\<rparr>)"

text \<open>The "Net Savings" card renders \<open>stats.income - stats.expenses\<close>.\<close>

definition Budgets_netSavings :: "BudgetsStats \<Rightarrow> rat" where
  "Budgets_netSavings stats = fsub (bs_income stats) (bs_expenses stats)"

record BreakdownEntry =
  be_category :: "Category option"
  spent :: rat

text \<open>The body of the \<open>forEach\<close> that fills the \<open>breakdown\<close> map.\<close>

definition Budgets_breakdownStep ::
  "(string option, BreakdownEntry) js_map \<Rightarrow> Transaction \<Rightarrow> (string option, BreakdownEntry) js_map" where
  "Budgets_breakdownStep breakdown t =
     (case Map_get breakdown (category_id t) of
        Some existing \<Rightarrow>
          Map_set breakdown (category_id t)
            (existing\<lparr>spent := fadd (spent existing) (amount t)\<rparr>)
      | None \<Rightarrow>
          Map_set breakdown (category_id t) \<lparr>be_category = category t, spent = amount t\<rparr>)"

definition Budgets_breakdownMap :: "Transaction list \<Rightarrow> (string option, BreakdownEntry) js_map" where
  "Budgets_breakdownMap transactions =
     foldl Budgets_breakdownStep []
       (filter (\<lambda>t. txn_type t = Expense \<and> category t \<noteq> None) transactions)"

definition Budgets_categoryBreakdown :: "Transaction list \<Rightarrow> BreakdownEntry list" where
  "Budgets_categoryBreakdown transactions =
     Array_sort (\<lambda>a b. fsub (spent b) (spent a)) (Map_values (Budgets_breakdownMap transactions))"

text \<open>The percentage the breakdown list renders for an entry.\<close>

definition Budgets_percentage :: "BudgetsStats \<Rightarrow> BreakdownEntry \<Rightarrow> rat" where
  "Budgets_percentage stats e =
     (if bs_expenses stats > 0 then fmul (fdiv (spent e) (bs_expenses stats)) 100 else 0)"

section \<open>Aggregation on the Dashboard (src/finance buddy/src/pages/Dashboard.tsx)\<close>

record DashboardStats =
  ds_income :: rat
  ds_expenses :: rat
  ds_balance :: rat
  ds_budget :: rat

text \<open>\<open>monthlyIncome\<close> is the amount the \<open>useMonthlyIncome\<close> hook returns for the month.\<close>

definition Dashboard_stats :: "Transaction list \<Rightarrow> Profile option \<Rightarrow> rat \<Rightarrow> DashboardStats" where
  "Dashboard_stats transactions profile monthlyIncome =
     (let income = foldl (\<lambda>sum t. fadd sum (amount t)) 0
                     (filter (\<lambda>t. txn_type t = Income) transactions);
          expenses = foldl (\<lambda>sum t. fadd sum (amount t)) 0
                       (filter (\<lambda>t. txn_type t = Expense) transactions);
          totalIncome = (if monthlyIncome > 0 then monthlyIncome else income)
      in \<lparr>ds_income = totalIncome, ds_expenses = expenses,
          ds_balance = fsub totalIncome expenses,
          ds_budget = num_or (map_option monthly_budget profile) 0\<rparr>)"

record CategoryTotal =
  ct_category :: "Category option"
  ct_amount :: rat

text \<open>
  The variable \<open>total\<close> of \<open>categorySpending\<close> is written \<open>total'\<close>: HOL has a constant
  of that name.
\<close>

record CategorySpending =
  spending_category :: "Category option"
  spending_amount :: rat
  percentage :: rat

definition Dashboard_totalsStep ::
  "(string option, CategoryTotal) js_map \<Rightarrow> Transaction \<Rightarrow> (string option, CategoryTotal) js_map" where
  "Dashboard_totalsStep categoryTotals t =
     (case Map_get categoryTotals (category_id t) of
        Some existing \<Rightarrow>
          Map_set categoryTotals (category_id t)
            (existing\<lparr>ct_amount := fadd (ct_amount existing) (amount t)\<rparr>)
      | None \<Rightarrow>
          Map_set categoryTotals (category_id t)
            \<lparr>ct_category = category t, ct_amount = amount t\<rparr>)"

definition Dashboard_categoryTotals :: "Transaction list \<Rightarrow> (string option, CategoryTotal) js_map" where
  "Dashboard_categoryTotals transactions =
     (let expenseTransactions =
            filter (\<lambda>t. txn_type t = Expense \<and> category t \<noteq> None) transactions
      in foldl Dashboard_totalsStep [] expenseTransactions)"

definition Dashboard_spendingOf :: "rat \<Rightarrow> CategoryTotal \<Rightarrow> CategorySpending" where
  "Dashboard_spendingOf total' item =
     \<lparr>spending_category = ct_category item, spending_amount = ct_amount item,
      percentage = (if total' > 0 then fmul (fdiv (ct_amount item) total') 100 else 0)\<rparr>"

definition Dashboard_categorySpending :: "Transaction list \<Rightarrow> CategorySpending list" where
  "Dashboard_categorySpending transactions =
     (let categoryTotals = Dashboard_categoryTotals transactions;
          total' = foldl (\<lambda>sum c. fadd sum (ct_amount c)) 0 (Map_values categoryTotals)
      in Array_sort (\<lambda>a b. fsub (spending_amount b) (spending_amount a))
           (map (Dashboard_spendingOf total') (Map_values categoryTotals)))"

section \<open>Notions the properties are stated with\<close>

text \<open>
  The markup the specification describes for one cell: a string-typed cell holds its
  text with \<open>&\<close> and \<open><\<close> escaped in one pass and every other character kept; the
  Amount cell is number-typed and carries a style.
\<close>

definition xmlEscape :: "string \<Rightarrow> string" where
  \<open>xmlEscape s =
     concat (map (\<lambda>c. if c = CHR ''&'' then ''&amp;''
                       else if c = CHR ''<'' then ''&lt;'' else [c]) s)\<close>

definition stringCell :: "string \<Rightarrow> string" where
  \<open>stringCell s =
     ''        <Cell><Data ss:Type="String">'' @ xmlEscape s @ ''</Data></Cell>\<newline>''\<close>

definition numberCell :: "string \<Rightarrow> string \<Rightarrow> string" where
  \<open>numberCell style n =
     ''        <Cell ss:StyleID="'' @ style @ ''"><Data ss:Type="Number">'' @ n @
     ''</Data></Cell>\<newline>''\<close>

text \<open>The style of the Amount cell as the structured kind of the transaction gives it.\<close>

definition styleOfKind :: "TransactionType \<Rightarrow> string" where
  "styleOfKind k = (if k = Income then ''income'' else ''expense'')"

text \<open>
  The row of a transaction as the specification words it: the fallback for the category
  column applies when the category is absent, and only then.
\<close>

definition claimedRow :: "platform \<Rightarrow> Transaction \<Rightarrow> string list" where
  "claimedRow p t =
     [formatDate p (date t),
      type_string (txn_type t),
      (case category t of None \<Rightarrow> ''Uncategorized'' | Some c \<Rightarrow> cat_name c),
      numberToString p (amount t),
      (case description t of None \<Rightarrow> [] | Some d \<Rightarrow> d),
      if is_recurring t then ''Yes'' else ''No'',
      (case recurring_frequency t of None \<Rightarrow> [] | Some f \<Rightarrow> f)]"

text \<open>
  The expense transactions that enter the per-category breakdown, and the position in
  the input at which a category id is first met among them (the length of the input when
  it never is).
\<close>

definition categorised :: "Transaction \<Rightarrow> bool" where
  "categorised t = (txn_type t = Expense \<and> category t \<noteq> None)"

definition firstSeen :: "string option \<Rightarrow> Transaction list \<Rightarrow> nat" where
  "firstSeen k ts = length (takeWhile (\<lambda>t. \<not> (categorised t \<and> category_id t = k)) ts)"

text \<open>
  The sorted breakdowns with each entry still paired with its map key: the pages drop the
  key (\<open>breakdown.values()\<close>) before sorting, and these lists put it back so that the
  order of the entries can be compared with the order of the input.
\<close>

definition Budgets_sortedEntries :: "Transaction list \<Rightarrow> (string option \<times> BreakdownEntry) list" where
  "Budgets_sortedEntries ts =
     Array_sort (\<lambda>a b. fsub (spent (snd b)) (spent (snd a))) (Budgets_breakdownMap ts)"

definition Dashboard_sortedEntries :: "Transaction list \<Rightarrow> (string option \<times> CategorySpending) list" where
  "Dashboard_sortedEntries ts =
     (let categoryTotals = Dashboard_categoryTotals ts;
          total' = foldl (\<lambda>sum c. fadd sum (ct_amount c)) 0 (Map_values categoryTotals)
      in Array_sort (\<lambda>a b. fsub (spending_amount (snd b)) (spending_amount (snd a)))
           (map (\<lambda>kv. (fst kv, Dashboard_spendingOf total' (snd kv))) categoryTotals))"

text \<open>
  Sums in the arithmetic of the language. \<open>sumFrom0\<close> adds the numbers of a list to 0
  from left to right, as \<open>reduce((sum, x) => sum + x, 0)\<close> does; \<open>sumInOrder\<close> starts from
  the first number, as a map entry does that is created with the first amount of its
  category and then added to.
\<close>

definition sumFrom0 :: "rat list \<Rightarrow> rat" where
  "sumFrom0 xs = foldl fadd 0 xs"

fun sumInOrder :: "rat list \<Rightarrow> rat" where
  "sumInOrder [] = 0"
| "sumInOrder (x # xs) = foldl fadd x xs"

text \<open>
  The sums the specification names: of the amounts of the transactions of one kind, and
  of the amounts of the categorised expenses with a given category id, both in the order
  of the input.
\<close>

definition sumOfKind :: "TransactionType \<Rightarrow> Transaction list \<Rightarrow> rat" where
  "sumOfKind k ts = sumFrom0 (map amount (filter (\<lambda>t. txn_type t = k) ts))"

definition categoryAmount :: "string option \<Rightarrow> Transaction list \<Rightarrow> rat" where
  "categoryAmount k ts =
     sumInOrder (map amount (filter (\<lambda>t. categorised t \<and> category_id t = k) ts))"

text \<open>
  The running totals per category id, without the category objects, for a given
  addition: the addition of the language, or the exact one to compare with.
\<close>

definition totalStep ::
  "(rat \<Rightarrow> rat \<Rightarrow> rat) \<Rightarrow> ('k, rat) js_map \<Rightarrow> 'k \<times> rat \<Rightarrow> ('k, rat) js_map" where
  "totalStep add m ka =
     (case map_of m (fst ka) of
        Some s \<Rightarrow> Map_set m (fst ka) (add s (snd ka))
      | None \<Rightarrow> Map_set m (fst ka) (snd ka))"

text \<open>
  The category ids and amounts that enter the map, in the order of the input, and the
  keys of the map they build: the category ids in the order in which they are first met.
\<close>

definition keyAmounts :: "Transaction list \<Rightarrow> (string option \<times> rat) list" where
  "keyAmounts ts = map (\<lambda>t. (category_id t, amount t)) (filter categorised ts)"

definition categoryKeys :: "Transaction list \<Rightarrow> string option list" where
  "categoryKeys ts = map fst (foldl (totalStep fadd) [] (keyAmounts ts))"

text \<open>
  The denominator of the Dashboard: the per-category sums of the categorised expenses,
  added to 0 in the order in which the categories are first met.
\<close>

definition categorisedTotal :: "Transaction list \<Rightarrow> rat" where
  "categorisedTotal ts = sumFrom0 (map (\<lambda>k. categoryAmount k ts) (categoryKeys ts))"

text \<open>
  The entries of the Dashboard before sorting, each with its key and with the
  percentage taken of that denominator.
\<close>

definition Dashboard_entries :: "Transaction list \<Rightarrow> (string option \<times> CategorySpending) list" where
  "Dashboard_entries ts =
     map (\<lambda>kv. (fst kv, Dashboard_spendingOf (categorisedTotal ts) (snd kv)))
       (Dashboard_categoryTotals ts)"

text \<open>
  No addition rounds on a list of amounts when the exact sum of every selection of them
  (every subsequence) is a number of the language: then each sum the pages form, in
  whatever grouping, is exact.
\<close>

definition exactSums :: "rat list \<Rightarrow> bool" where
  "exactSums xs = (\<forall>ys \<in> set (subseqs xs). round64 (sum_list ys) = sum_list ys)"

text \<open>
  The amounts of the expense transactions, in the order of the input, and the exact sum of
  the amounts of those with a category.
\<close>

definition expenseAmounts :: "Transaction list \<Rightarrow> rat list" where
  "expenseAmounts ts = map amount (filter (\<lambda>t. txn_type t = Expense) ts)"

definition categorisedSum :: "Transaction list \<Rightarrow> rat" where
  "categorisedSum ts = sum_list (map amount (filter categorised ts))"

text \<open>\<open>precedes x y xs\<close>: an occurrence of \<open>x\<close> stands before an occurrence of \<open>y\<close> in \<open>xs\<close>.\<close>

fun precedes :: "'a \<Rightarrow> 'a \<Rightarrow> 'a list \<Rightarrow> bool" where
  "precedes x y [] = False"
| "precedes x y (z # zs) = ((z = x \<and> y \<in> set zs) \<or> precedes x y zs)"

section \<open>Sample data\<close>

text \<open>
  A platform for the examples: dates arrive as \<open>yyyy-MM-dd\<close> strings and are kept, as in
  a process whose time zone is UTC, and the amounts of the examples print as the
  language prints them.
\<close>

definition samplePlatform :: platform where
  "samplePlatform =
     \<lparr>formatDate = take 10,
      numberToString = (\<lambda>q. if q = 60 then ''60'' else if q = 40 then ''40''
                            else if q = 200 then ''200'' else if q = 25 / 2 then ''12.5''
                            else ''0''),
      todayStr = ''2024-03-01''\<rparr>"

text \<open>
  The same platform in a process west of Greenwich: \<open>new Date('2024-02-14')\<close> is
  midnight UTC, which the date library formats in local time as the day before.
\<close>

definition westernPlatform :: platform where
  "westernPlatform =
     samplePlatform\<lparr>formatDate := (\<lambda>s. if s = ''2024-02-14'' then ''2024-02-13'' else take 10 s)\<rparr>"

definition sampleCategory :: "string \<Rightarrow> string \<Rightarrow> TransactionType \<Rightarrow> Category" where
  "sampleCategory i n k =
     \<lparr>cat_id = i, cat_user_id = ''u1'', cat_name = n, cat_icon = ''tag'',
      cat_color = ''#10b981'', cat_type = k, category_group = Variable,
      is_default = False, cat_created_at = ''2024-01-01''\<rparr>"

definition sampleTransaction ::
  "string \<Rightarrow> TransactionType \<Rightarrow> rat \<Rightarrow> Category option \<Rightarrow> string option \<Rightarrow> Transaction" where
  "sampleTransaction i k a c d =
     \<lparr>txn_id = i, user_id = ''u1'', category_id = map_option cat_id c, amount = a,
      txn_type = k, description = d, date = ''2024-02-14'', is_recurring = False,
      recurring_frequency = None, next_occurrence = None, reminder_enabled = False,
      reminder_days_before = 3, created_at = ''2024-02-14'', updated_at = ''2024-02-14'',
      category = c\<rparr>"

definition food :: Category where
  "food = sampleCategory ''c1'' ''Food'' Expense"

definition rent :: Category where
  "rent = sampleCategory ''c2'' ''Rent'' Expense"

definition salary :: Category where
  "salary = sampleCategory ''c3'' ''Salary'' Income"

definition unnamed :: Category where
  "unnamed = sampleCategory ''c4'' [] Expense"

text \<open>The scenario of the specification: 60 on food, 40 on rent, a salary of 200.\<close>

definition scenario :: "Transaction list" where
  "scenario =
     [sampleTransaction ''t1'' Expense 60 (Some food) None,
      sampleTransaction ''t2'' Expense 40 (Some rent) None,
      sampleTransaction ''t3'' Income 200 (Some salary) None]"

text \<open>An expense without a category beside one with a category.\<close>

definition partlyCategorised :: "Transaction list" where
  "partlyCategorised =
     [sampleTransaction ''t1'' Expense 60 (Some food) None,
      sampleTransaction ''t2'' Expense 40 None None]"

text \<open>Rent is met first and ties with food at 60 once the second food expense is added.\<close>

definition tied :: "Transaction list" where
  "tied =
     [sampleTransaction ''t1'' Expense 60 (Some rent) None,
      sampleTransaction ''t2'' Expense 200 (Some salary) None,
      sampleTransaction ''t3'' Expense 40 (Some food) None,
      sampleTransaction ''t4'' Expense 12 (Some food) None,
      sampleTransaction ''t5'' Expense 8 (Some food) None]"

text \<open>
  Amounts with cents, all with a category: 0.1 on food, 0.1 on rent, 1.1 on food. The
  literals \<open>0.1\<close> and \<open>1.1\<close> denote the doubles nearest to them.
\<close>

definition cents :: "Transaction list" where
  "cents =
     [sampleTransaction ''t1'' Expense (round64 (1 / 10)) (Some food) None,
      sampleTransaction ''t2'' Expense (round64 (1 / 10)) (Some rent) None,
      sampleTransaction ''t3'' Expense (round64 (11 / 10)) (Some food) None]"

definition quoted :: Transaction where
  \<open>quoted = sampleTransaction ''t1'' Expense (25 / 2) (Some food) (Some ''He said, "hi"'')\<close>

definition markup :: Transaction where
  \<open>markup = sampleTransaction ''t1'' Expense (25 / 2) (Some food) (Some ''a<b & c>d'')\<close>

definition nameless :: Transaction where
  "nameless = sampleTransaction ''t1'' Expense 40 (Some unnamed) None"

section \<open>Properties of the delimited-text escaping\<close>





section \<open>Properties of the exporters\<close>

lemma replace_all_append:
  "replace_all c r (a @ b) = replace_all c r a @ replace_all c r b"
  by (induction a) simp_all

lemma replace_twice_xmlEscape:
  \<open>replace_all (CHR ''<'') ''&lt;'' (replace_all (CHR ''&'') ''&amp;'' s) = xmlEscape s\<close>
  by (induction s) (simp_all add: xmlEscape_def replace_all_append)

lemma str_or_empty: "str_or x [] = (case x of None \<Rightarrow> [] | Some s \<Rightarrow> s)"
  by (cases x) simp_all

lemma foldl_acc_concat:
  assumes "\<And>a x. f a x = a @ f [] x"
  shows "foldl f a xs = a @ concat (map (f []) xs)"
proof (induction xs arbitrary: a)
  case Nil show ?case by simp
next
  case (Cons x xs)
  show ?case
    using Cons[of "f a x"] assms[of a x] by simp
qed

lemma excelCell_acc: "excelCell p row a ic = a @ excelCell p row [] ic"
  by (cases ic) (simp add: excelCell_def)

lemma excelDataRow_acc: "excelDataRow p xml row = xml @ excelDataRow p [] row"
  using foldl_acc_concat[of "excelCell p row", OF excelCell_acc]
  by (simp add: excelDataRow_def)

lemma foldl_excelDataRow:
  "foldl (excelDataRow p) xml rows = xml @ concat (map (excelDataRow p []) rows)"
  using foldl_acc_concat[of "excelDataRow p", OF excelDataRow_acc] .

lemma foldl_excelHeaderCell:
  "foldl excelHeaderCell xml hs = xml @ concat (map (excelHeaderCell []) hs)"
proof -
  have "excelHeaderCell a h = a @ excelHeaderCell [] h" for a h
    by (simp add: excelHeaderCell_def)
  from foldl_acc_concat[of excelHeaderCell, OF this] show ?thesis .
qed

lemma excelXml_unfold:
  \<open>excelXml p ts =
     excelProlog @ ''      <Row>\<newline>'' @ concat (map (excelHeaderCell []) headers) @
     ''      </Row>\<newline>'' @
     concat (map (\<lambda>t. excelDataRow p [] (excelRow p t)) ts) @ excelEpilog\<close>
  by (simp only: excelXml_def Let_def foldl_excelDataRow foldl_excelHeaderCell map_map comp_def append_assoc)

lemma excelCell_string:
  "i \<noteq> 3 \<Longrightarrow> excelCell p row xml (i, Str s) = xml @ stringCell s"
  by (simp add: excelCell_def stringCell_def replace_twice_xmlEscape)

lemma excelCell_number:
  "excelCell p row xml (3, c) = xml @ numberCell (amountStyle row) (cell_string p c)"
  by (simp add: excelCell_def numberCell_def)

lemma enumerate7:
  "enumerate 0 [a, b, c, d, e, f, g] = [(0, a), (1, b), (2, c), (3, d), (4, e), (5, f), (6, g)]"
  by (simp add: enumerate_eq_zip upt_rec)

lemma excelDataRow_unfold:
  \<open>excelDataRow p xml (excelRow p t) =
     xml @ ''      <Row>\<newline>'' @
     stringCell (formatDate p (date t)) @
     stringCell (type_string (txn_type t)) @
     stringCell (str_or (map_option cat_name (category t)) ''Uncategorized'') @
     numberCell (amountStyle (excelRow p t)) (numberToString p (amount t)) @
     stringCell (str_or (description t) []) @
     stringCell (if is_recurring t then ''Yes'' else ''No'') @
     stringCell (str_or (recurring_frequency t) []) @
     ''      </Row>\<newline>''\<close>
proof -
  define row where "row = excelRow p t"
  have r: "row = [Str (formatDate p (date t)), Str (type_string (txn_type t)),
      Str (str_or (map_option cat_name (category t)) ''Uncategorized''), Num (amount t),
      Str (str_or (description t) []), Str (if is_recurring t then ''Yes'' else ''No''),
      Str (str_or (recurring_frequency t) [])]"
    by (simp add: row_def excelRow_def)
  have "excelDataRow p xml row = xml @ ''      <Row>\<newline>'' @
     stringCell (formatDate p (date t)) @
     stringCell (type_string (txn_type t)) @
     stringCell (str_or (map_option cat_name (category t)) ''Uncategorized'') @
     numberCell (amountStyle row) (numberToString p (amount t)) @
     stringCell (str_or (description t) []) @
     stringCell (if is_recurring t then ''Yes'' else ''No'') @
     stringCell (str_or (recurring_frequency t) []) @
     ''      </Row>\<newline>''"
    unfolding excelDataRow_def
    apply (subst (2) r)
    apply (simp only: enumerate7 foldl.simps)
    apply (simp only: excelCell_number)
    apply (simp add: excelCell_string)
    done
  then show ?thesis by (simp only: row_def)
qed

text \<open>
  Claim C4. For the empty list of transactions both export entry points return without
  producing output: the list of downloads is returned as it was given, so
  \<open>downloadBlob\<close> is never reached, whatever the optional file name is.
\<close>

theorem export_empty_no_download:
  "exportToCSV p [] filename sink = sink \<and> exportToExcel p [] filename sink = sink"
  by (simp add: exportToCSV_def exportToExcel_def)

theorem export_empty_no_download_witness:
  "exportToCSV samplePlatform [] None [] = [] \<and>
   exportToExcel samplePlatform [] (Some ''report.xls'') [] = []"
  using export_empty_no_download [of samplePlatform None "[]"]
    export_empty_no_download [of samplePlatform "Some ''report.xls''" "[]"]
  by simp

text \<open>
  Claim C5. In the spreadsheet-markup export the row of every transaction consists of
  seven cells between the row tags: the fourth (index 3) is a number-typed cell holding
  the amount as the language prints it, and each of the other six is a string-typed cell
  whose text has every \<open>&\<close> replaced by \<open>&amp;\<close>, every \<open><\<close> replaced by \<open>&lt;\<close> and
  every other character kept. The document is the prolog, the header row, these rows in
  the order of the input, and the epilog.
\<close>

theorem excel_row_cells:
  \<open>excelDataRow p xml (excelRow p t) =
     xml @ ''      <Row>\<newline>'' @
     stringCell (formatDate p (date t)) @
     stringCell (type_string (txn_type t)) @
     stringCell (str_or (map_option cat_name (category t)) ''Uncategorized'') @
     numberCell (amountStyle (excelRow p t)) (numberToString p (amount t)) @
     stringCell (str_or (description t) []) @
     stringCell (if is_recurring t then ''Yes'' else ''No'') @
     stringCell (str_or (recurring_frequency t) []) @
     ''      </Row>\<newline>''
   \<and> excelXml p ts =
     excelProlog @ ''      <Row>\<newline>'' @ concat (map (excelHeaderCell []) headers) @
     ''      </Row>\<newline>'' @
     concat (map (\<lambda>t. excelDataRow p [] (excelRow p t)) ts) @ excelEpilog\<close>
  using excelDataRow_unfold[of p xml t] excelXml_unfold[of p ts] by (rule conjI)

theorem excel_row_cells_witness:
  \<open>excelDataRow samplePlatform [] (excelRow samplePlatform markup) =
     ''      <Row>\<newline>'' @
     ''        <Cell><Data ss:Type="String">2024-02-14</Data></Cell>\<newline>'' @
     ''        <Cell><Data ss:Type="String">expense</Data></Cell>\<newline>'' @
     ''        <Cell><Data ss:Type="String">Food</Data></Cell>\<newline>'' @
     ''        <Cell ss:StyleID="expense"><Data ss:Type="Number">12.5</Data></Cell>\<newline>'' @
     ''        <Cell><Data ss:Type="String">a&lt;b &amp; c>d</Data></Cell>\<newline>'' @
     ''        <Cell><Data ss:Type="String">No</Data></Cell>\<newline>'' @
     ''        <Cell><Data ss:Type="String"></Data></Cell>\<newline>'' @
     ''      </Row>\<newline>''\<close>
  using excel_row_cells [of samplePlatform "[]" markup "[]"]
  by (simp add: samplePlatform_def markup_def sampleTransaction_def food_def
      sampleCategory_def stringCell_def numberCell_def xmlEscape_def amountStyle_def
      excelRow_def at_index_def)

text \<open>
  Claim C8, as stated, fails on a transaction whose category is present and has the empty
  string as its name: \<open>t.category?.name || 'Uncategorized'\<close> yields the fallback there
  too, where the description of the row promises the (empty) name.
\<close>

theorem row_claimed_counterexample:
  "category nameless = Some unnamed \<and> cat_name unnamed = [] \<and>
   csvRow samplePlatform nameless ! 2 = ''Uncategorized'' \<and>
   excelRow samplePlatform nameless ! 2 = Str ''Uncategorized'' \<and>
   claimedRow samplePlatform nameless ! 2 = [] \<and>
   csvRow samplePlatform nameless \<noteq> claimedRow samplePlatform nameless"
  by (simp add: csvRow_def excelRow_def claimedRow_def nameless_def unnamed_def
      sampleTransaction_def sampleCategory_def)

text \<open>
  Claim C8, amended. For every transaction both exporters build the row of seven values,
  in this order: the date as the date library formats it with \<open>yyyy-MM-dd\<close>, the type,
  the category name with the literal fallback "Uncategorized" when the category is absent
  or its name is the empty string, the amount (printed for the delimited text, the number
  itself for the spreadsheet), the description or the empty string, "Yes" or "No" for the
  recurring flag, and the frequency or the empty string; the header row names the seven
  columns in the same order.
\<close>

theorem export_rows:
  "csvRow p t =
     [formatDate p (date t),
      type_string (txn_type t),
      (case category t of None \<Rightarrow> ''Uncategorized''
       | Some c \<Rightarrow> if cat_name c = [] then ''Uncategorized'' else cat_name c),
      numberToString p (amount t),
      (case description t of None \<Rightarrow> [] | Some d \<Rightarrow> d),
      if is_recurring t then ''Yes'' else ''No'',
      (case recurring_frequency t of None \<Rightarrow> [] | Some f \<Rightarrow> f)]
   \<and> excelRow p t =
     [Str (formatDate p (date t)),
      Str (type_string (txn_type t)),
      Str (case category t of None \<Rightarrow> ''Uncategorized''
           | Some c \<Rightarrow> if cat_name c = [] then ''Uncategorized'' else cat_name c),
      Num (amount t),
      Str (case description t of None \<Rightarrow> [] | Some d \<Rightarrow> d),
      Str (if is_recurring t then ''Yes'' else ''No''),
      Str (case recurring_frequency t of None \<Rightarrow> [] | Some f \<Rightarrow> f)]
   \<and> headers =
     [''Date'', ''Type'', ''Category'', ''Amount'', ''Description'', ''Recurring'',
      ''Frequency'']
   \<and> type_string Income = ''income'' \<and> type_string Expense = ''expense''"
proof -
  have c: "str_or (map_option cat_name (category t)) ''Uncategorized'' =
      (case category t of None \<Rightarrow> ''Uncategorized''
       | Some c \<Rightarrow> if cat_name c = [] then ''Uncategorized'' else cat_name c)"
    by (cases "category t") simp_all
  show ?thesis
    by (simp add: csvRow_def excelRow_def headers_def c str_or_empty)
qed

theorem export_rows_witness:
  \<open>csvRow samplePlatform quoted =
     [''2024-02-14'', ''expense'', ''Food'', ''12.5'', ''He said, "hi"'', ''No'', []] \<and>
   excelRow samplePlatform nameless =
     [Str ''2024-02-14'', Str ''expense'', Str ''Uncategorized'', Num 40, Str [], Str ''No'',
      Str []]\<close>
  using export_rows [of samplePlatform quoted] export_rows [of samplePlatform nameless]
  by (simp add: samplePlatform_def quoted_def nameless_def sampleTransaction_def food_def
      unnamed_def sampleCategory_def)

text \<open>
  Claim C9. In the spreadsheet-markup export the style of the Amount cell, chosen by
  comparing the second slot of the row with the literal \<open>income\<close>, is the style the
  structured kind of the transaction gives: the income style if and only if the kind is
  income, the expense style otherwise; and the Amount cell is emitted with that style.
\<close>

theorem amount_style_refines_kind:
  "amountStyle (excelRow p t) = styleOfKind (txn_type t) \<and>
   (amountStyle (excelRow p t) = ''income'' \<longleftrightarrow> txn_type t = Income) \<and>
   excelCell p (excelRow p t) xml (3, Num (amount t)) =
     xml @ numberCell (styleOfKind (txn_type t)) (numberToString p (amount t))"
proof -
  have s: "amountStyle (excelRow p t) = styleOfKind (txn_type t)"
    by (cases "txn_type t") (simp_all add: amountStyle_def excelRow_def at_index_def styleOfKind_def)
  show ?thesis
    by (simp add: s excelCell_number) (simp add: styleOfKind_def)
qed

theorem amount_style_refines_kind_witness:
  "amountStyle (excelRow samplePlatform (hd scenario)) = ''expense'' \<and>
   amountStyle (excelRow samplePlatform (last scenario)) = ''income''"
  using amount_style_refines_kind [of samplePlatform "hd scenario"]
    amount_style_refines_kind [of samplePlatform "last scenario"]
  by (simp add: scenario_def sampleTransaction_def styleOfKind_def)

lemma csvContent_env:
  assumes "formatDate q = formatDate p" and "numberToString q = numberToString p"
  shows "csvContent q ts = csvContent p ts"
proof -
  have "csvRow q = csvRow p"
    by (intro ext) (simp add: csvRow_def assms)
  then show ?thesis by (simp add: csvContent_def)
qed

lemma excelXml_env:
  assumes "formatDate q = formatDate p" and "numberToString q = numberToString p"
  shows "excelXml q ts = excelXml p ts"
proof -
  have "cell_string q c = cell_string p c" for c
    by (cases c) (simp_all add: assms)
  then have "excelCell q = excelCell p"
    by (intro ext) (simp add: excelCell_def split: prod.splits)
  then have "excelDataRow q = excelDataRow p"
    by (intro ext) (simp add: excelDataRow_def)
  moreover have "excelRow q = excelRow p"
    by (intro ext) (simp add: excelRow_def assms)
  ultimately show ?thesis by (simp add: excelXml_def)
qed

lemma eval_dates:
  "csvRow samplePlatform quoted ! 0 = ''2024-02-14''"
  "csvRow westernPlatform quoted ! 0 = ''2024-02-13''"
  by (simp_all add: csvRow_def samplePlatform_def westernPlatform_def quoted_def
      sampleTransaction_def)

lemma csv_differ:
  "csvContent samplePlatform [quoted] \<noteq> csvContent westernPlatform [quoted]"
  by (simp add: csvContent_def csvRow_def escapeCSV_def str_includes_def headers_def
      samplePlatform_def westernPlatform_def quoted_def sampleTransaction_def)

lemma xml_differ:
  "excelXml samplePlatform [quoted] \<noteq> excelXml westernPlatform [quoted]"
  by (simp add: excelXml_unfold excelDataRow_unfold stringCell_def xmlEscape_def
      samplePlatform_def westernPlatform_def quoted_def sampleTransaction_def)

text \<open>
  Claim C10, as stated, fails in two ways. When the file name that is supplied is the
  empty string, \<open>filename || ...\<close> falls back to the default name, which holds the
  current date, so two runs on different days hand different file names to the Sink.
  And the text itself depends on the time zone of the process: the date library formats
  the midnight UTC of a stored date in local time, so west of Greenwich every date
  column shows the day before.
\<close>

theorem export_environment_counterexample:
  "download_name (last (exportToCSV samplePlatform [quoted] (Some []) [])) =
     ''transactions-2024-03-01.csv'' \<and>
   download_name
     (last (exportToCSV (samplePlatform\<lparr>todayStr := ''2024-03-02''\<rparr>) [quoted] (Some []) [])) =
     ''transactions-2024-03-02.csv'' \<and>
   exportToCSV samplePlatform [quoted] (Some []) [] \<noteq>
   exportToCSV (samplePlatform\<lparr>todayStr := ''2024-03-02''\<rparr>) [quoted] (Some []) [] \<and>
   csvRow samplePlatform quoted ! 0 = ''2024-02-14'' \<and>
   csvRow westernPlatform quoted ! 0 = ''2024-02-13'' \<and>
   exportToCSV samplePlatform [quoted] (Some ''out.csv'') [] \<noteq>
   exportToCSV westernPlatform [quoted] (Some ''out.csv'') [] \<and>
   exportToExcel samplePlatform [quoted] (Some ''out.xls'') [] \<noteq>
   exportToExcel westernPlatform [quoted] (Some ''out.xls'') []"
proof -
  have a: "download_name (last (exportToCSV samplePlatform [quoted] (Some []) [])) =
     ''transactions-2024-03-01.csv''"
    "download_name
     (last (exportToCSV (samplePlatform\<lparr>todayStr := ''2024-03-02''\<rparr>) [quoted] (Some []) [])) =
     ''transactions-2024-03-02.csv''"
    "exportToCSV samplePlatform [quoted] (Some []) [] \<noteq>
   exportToCSV (samplePlatform\<lparr>todayStr := ''2024-03-02''\<rparr>) [quoted] (Some []) []"
    by (simp_all add: exportToCSV_def downloadBlob_def samplePlatform_def)
  have b: "exportToCSV samplePlatform [quoted] (Some ''out.csv'') [] \<noteq>
   exportToCSV westernPlatform [quoted] (Some ''out.csv'') []"
    "exportToExcel samplePlatform [quoted] (Some ''out.xls'') [] \<noteq>
   exportToExcel westernPlatform [quoted] (Some ''out.xls'') []"
    by (simp_all add: exportToCSV_def exportToExcel_def downloadBlob_def csv_differ xml_differ)
  from a b eval_dates show ?thesis by (intro conjI)
qed

text \<open>
  Claim C10, amended. For any two invocations with identical transaction lists and an
  identical, non-empty file name, in processes whose date library formats the dates
  alike (the same time zone), both exporters hand the same download to the Sink,
  character for character, whatever the Sink has received before: for a non-empty list
  it is the serialized text, the MIME type of the format and the supplied name. Besides
  the list and the file name the output depends on the time zone only; the current date
  plays no part. (The printing of numbers is the language's own and the same in every
  run; the two platforms agree on it.)
\<close>

theorem export_deterministic:
  assumes "filename \<noteq> []" and "formatDate q = formatDate p"
    and "numberToString q = numberToString p"
  shows
  "csvContent q ts = csvContent p ts \<and>
   excelXml q ts = excelXml p ts \<and>
   exportToCSV q ts (Some filename) sink = exportToCSV p ts (Some filename) sink \<and>
   exportToExcel q ts (Some filename) sink = exportToExcel p ts (Some filename) sink \<and>
   (ts \<noteq> [] \<longrightarrow>
     exportToCSV p ts (Some filename) sink =
       sink @ [\<lparr>blob_content = csvContent p ts, blob_type = ''text/csv;charset=utf-8;'',
                download_name = filename\<rparr>] \<and>
     exportToCSV q ts (Some filename) sink' =
       sink' @ [\<lparr>blob_content = csvContent p ts, blob_type = ''text/csv;charset=utf-8;'',
                 download_name = filename\<rparr>] \<and>
     exportToExcel p ts (Some filename) sink =
       sink @ [\<lparr>blob_content = excelXml p ts, blob_type = ''application/vnd.ms-excel'',
                download_name = filename\<rparr>] \<and>
     exportToExcel q ts (Some filename) sink' =
       sink' @ [\<lparr>blob_content = excelXml p ts, blob_type = ''application/vnd.ms-excel'',
                 download_name = filename\<rparr>])"
  using assms(1) csvContent_env[OF assms(2,3), of ts] excelXml_env[OF assms(2,3), of ts]
  by (simp add: exportToCSV_def exportToExcel_def downloadBlob_def)

theorem export_deterministic_witness:
  "exportToCSV (samplePlatform\<lparr>todayStr := ''2024-03-02''\<rparr>) [quoted] (Some ''out.csv'') [] =
     exportToCSV samplePlatform [quoted] (Some ''out.csv'') [] \<and>
   exportToExcel (samplePlatform\<lparr>todayStr := ''2024-03-02''\<rparr>) [quoted] (Some ''out.xls'') [] =
     exportToExcel samplePlatform [quoted] (Some ''out.xls'') [] \<and>
   exportToCSV samplePlatform [quoted] (Some ''out.csv'') [] =
     [\<lparr>blob_content = csvContent samplePlatform [quoted],
       blob_type = ''text/csv;charset=utf-8;'', download_name = ''out.csv''\<rparr>]"
  using
    export_deterministic [where filename = "''out.csv''" and p = samplePlatform
      and q = "samplePlatform\<lparr>todayStr := ''2024-03-02''\<rparr>" and ts = "[quoted]"
      and sink = "[]"]
    export_deterministic [where filename = "''out.xls''" and p = samplePlatform
      and q = "samplePlatform\<lparr>todayStr := ''2024-03-02''\<rparr>" and ts = "[quoted]"
      and sink = "[]"]
  by simp

section \<open>Properties of the arithmetic\<close>

text \<open>
  The exponent that \<open>flog2\<close> computes is the right one, rounding keeps the sign, and a
  whole number of magnitude up to \<open>2 ^ 53\<close> is a number of the language.
\<close>

lemma of_int_pow2_bounds:
  fixes a :: int
  assumes "0 < a"
  shows "(2::rat) powi (bitlen a - 1) \<le> of_int a" and "of_int a < (2::rat) powi (bitlen a)"
proof -
  from bitlen_bounds[OF assms] have lo: "2 ^ nat (bitlen a - 1) \<le> a" and hi: "a < 2 ^ nat (bitlen a)"
    by simp_all
  from assms have b1: "1 \<le> bitlen a"
    using bitlen_eq_zero_iff[of a] bitlen_nonneg[of a] by linarith
  have "(2::rat) powi (bitlen a - 1) = 2 ^ nat (bitlen a - 1)"
    using b1 by (simp add: power_int_nonneg_exp)
  also have "\<dots> = of_int (2 ^ nat (bitlen a - 1))" by simp
  also have "\<dots> \<le> of_int a" using lo by (simp only: of_int_le_iff)
  finally show "(2::rat) powi (bitlen a - 1) \<le> of_int a" .
  have "(of_int a :: rat) < of_int (2 ^ nat (bitlen a))" using hi by (simp only: of_int_less_iff)
  also have "\<dots> = 2 ^ nat (bitlen a)" by simp
  also have "\<dots> = (2::rat) powi (bitlen a)"
    using b1 by (simp add: power_int_nonneg_exp)
  finally show "of_int a < (2::rat) powi (bitlen a)" .
qed

lemma flog2_bounds:
  assumes "0 < q"
  shows "2 powi (flog2 q) \<le> q" and "q < 2 powi (flog2 q + 1)"
proof -
  obtain a b where ab: "quotient_of q = (a, b)" by (cases "quotient_of q")
  then have b: "0 < b" and q: "q = of_int a / of_int b"
    by (simp_all add: quotient_of_denom_pos quotient_of_div)
  with assms have a: "0 < a" by (simp add: zero_less_divide_iff)
  define k where "k = bitlen a - bitlen b"
  have fl: "flog2 q = (if 2 powi k \<le> q then k else k - 1)"
    by (simp add: flog2_def ab k_def)
  note A = of_int_pow2_bounds[OF a] and B = of_int_pow2_bounds[OF b]
  have pos: "(0::rat) < 2 powi n" for n by simp
  have lower: "2 powi (k - 1) \<le> q"
  proof -
    have "k - 1 = (bitlen a - 1) - bitlen b"
      by (simp add: k_def)
    moreover have "(2::rat) powi ((bitlen a - 1) - bitlen b) =
        2 powi (bitlen a - 1) / 2 powi (bitlen b)"
      by (rule power_int_diff) simp
    ultimately have "(2::rat) powi (k - 1) = 2 powi (bitlen a - 1) / 2 powi (bitlen b)"
      by (simp only:)
    also have "\<dots> \<le> of_int a / 2 powi (bitlen b)"
      using A(1) by (simp add: divide_right_mono)
    also have "\<dots> \<le> of_int a / of_int b"
      using B(2) a b by (intro divide_left_mono) simp_all
    finally show ?thesis by (simp only: q)
  qed
  have upper: "q < 2 powi (k + 1)"
  proof -
    have "q = of_int a / of_int b" by (rule q)
    also have "\<dots> < 2 powi (bitlen a) / of_int b"
      using A(2) b by (simp add: divide_strict_right_mono)
    also have "\<dots> \<le> 2 powi (bitlen a) / 2 powi (bitlen b - 1)"
      using B(1) b by (intro divide_left_mono) (simp_all add: zero_less_mult_iff)
    also have "\<dots> = 2 powi (bitlen a - (bitlen b - 1))"
      by (subst power_int_diff) simp_all
    also have "bitlen a - (bitlen b - 1) = k + 1"
      by (simp add: k_def)
    finally show ?thesis .
  qed
  show "2 powi (flog2 q) \<le> q" using lower by (simp add: fl)
  show "q < 2 powi (flog2 q + 1)" using upper by (auto simp: fl not_le)
qed

lemma round64_minus: "round64 (- q) = - round64 q"
  by (simp add: round64_def Let_def)

lemma round64_pos:
  assumes "0 < q"
  shows "0 < round64 q"
proof -
  define e where "e = flog2 q - 52"
  define s where "s = q / 2 powi e"
  define n where "n = \<lfloor>s\<rfloor>"
  define m where "m = (if s - of_int n < 1 / 2 then n else if 1 / 2 < s - of_int n then n + 1
                    else if even n then n else n + 1)"
  have "2 powi (flog2 q) \<le> q" using assms by (rule flog2_bounds)
  then have "2 powi (flog2 q) / 2 powi e \<le> s"
    unfolding s_def by (simp add: divide_right_mono)
  moreover have "(2::rat) powi (flog2 q) / 2 powi e = 2 powi 52"
    by (simp add: e_def flip: power_int_diff)
  ultimately have "1 \<le> s" by simp
  then have "1 \<le> n" unfolding n_def by simp
  then have "1 \<le> m" by (simp add: m_def)
  then have "(0::rat) < of_int m * 2 powi e" by simp
  moreover have "round64 q = of_int m * 2 powi e"
    using assms by (simp add: round64_def Let_def e_def s_def n_def m_def)
  ultimately show ?thesis by simp
qed

lemma round64_sign:
  "round64 q \<le> 0 \<longleftrightarrow> q \<le> 0" "round64 q < 0 \<longleftrightarrow> q < 0" "round64 q = 0 \<longleftrightarrow> q = 0"
proof -
  have z: "round64 0 = 0" by (simp add: round64_def)
  have neg: "round64 q < 0" if "q < 0"
    using round64_pos[of "- q"] that by (simp add: round64_minus)
  have pos: "0 < round64 q" if "0 < q" using that by (rule round64_pos)
  show "round64 q \<le> 0 \<longleftrightarrow> q \<le> 0"
    using z neg pos by (cases q "0::rat" rule: linorder_cases) (auto simp: not_le)
  show "round64 q < 0 \<longleftrightarrow> q < 0"
    using z neg pos by (cases q "0::rat" rule: linorder_cases) (auto simp: not_less less_imp_le)
  show "round64 q = 0 \<longleftrightarrow> q = 0"
    using z neg pos by (cases q "0::rat" rule: linorder_cases) auto
qed

lemma fsub_sign: "fsub x y \<le> 0 \<longleftrightarrow> x \<le> y"
  by (simp add: fsub_def round64_sign)

lemma flog2_less:
  assumes "0 < q" and "q < 2 powi n"
  shows "flog2 q < n"
proof (rule ccontr)
  assume "\<not> flog2 q < n"
  then have "n \<le> flog2 q" by simp
  then have "(2::rat) powi n \<le> 2 powi (flog2 q)"
    by (intro power_int_increasing) simp_all
  also have "\<dots> \<le> q" using assms(1) by (rule flog2_bounds)
  finally show False using assms(2) by simp
qed

lemma round64_whole_pos:
  assumes "0 < n" and "n \<le> 2 ^ 53"
  shows "round64 (of_int n) = of_int n"
proof (cases "n = 2 ^ 53")
  case True
  have "round64 (2 ^ 53) = 2 ^ 53" by code_simp
  with True show ?thesis by simp
next
  case False
  with assms have lt: "n < 2 ^ 53" by simp
  define q :: rat where "q = of_int n"
  have qpos: "0 < q" using assms(1) by (simp add: q_def)
  have "q < of_int (2 ^ 53)" unfolding q_def using lt by (simp only: of_int_less_iff)
  then have "q < 2 powi 53" by simp
  with qpos have "flog2 q < 53" by (rule flog2_less)
  define e where "e = flog2 q - 52"
  define d where "d = nat (- e)"
  from \<open>flog2 q < 53\<close> have e: "e \<le> 0" and ed: "e = - int d"
    by (simp_all add: e_def d_def)
  have p: "(2::rat) powi e = 1 / 2 ^ d"
    by (simp add: ed power_int_minus_divide)
  define s where "s = q / 2 powi e"
  have s: "s = of_int (n * 2 ^ d)"
    by (simp add: s_def p q_def)
  have fl: "\<lfloor>s\<rfloor> = n * 2 ^ d" by (simp only: s floor_of_int)
  have r: "s - of_int \<lfloor>s\<rfloor> = 0" using s by (simp only: fl) simp
  from qpos have a: "\<bar>q\<bar> = q" "sgn q = 1" "q \<noteq> 0" by simp_all
  have "round64 q =
      (let n' = \<lfloor>s\<rfloor>; r = s - of_int n';
           m = (if r < 1 / 2 then n' else if 1 / 2 < r then n' + 1
                else if even n' then n' else n' + 1)
       in of_int m * 2 powi e)"
    by (simp only: round64_def a if_False Let_def e_def s_def mult_1)
  also have "\<dots> = of_int (n * 2 ^ d) * 2 powi e"
    by (simp only: Let_def r) (simp add: fl)
  also have "\<dots> = q" by (simp add: p q_def)
  finally show ?thesis by (simp only: q_def)
qed

lemma round64_whole:
  assumes "\<bar>n\<bar> \<le> 2 ^ 53"
  shows "round64 (of_int n) = of_int n"
proof (cases n "0::int" rule: linorder_cases)
  case equal
  then show ?thesis by (simp add: round64_def)
next
  case greater
  with assms show ?thesis by (intro round64_whole_pos) simp_all
next
  case less
  with assms have "round64 (of_int (- n)) = of_int (- n)"
    by (intro round64_whole_pos) simp_all
  then show ?thesis by (simp add: round64_minus)
qed

lemma round64_numeral:
  "numeral k \<le> (2::int) ^ 53 \<Longrightarrow> round64 (numeral k) = numeral k"
  using round64_whole[of "numeral k"] by simp

lemma round64_0: "round64 0 = 0"
  by (simp add: round64_def)

lemma round64_1: "round64 1 = 1"
  using round64_whole[of 1] by simp

section \<open>Properties of the aggregation\<close>

subsection \<open>Sorting, order of occurrence and the map\<close>

lemma insert_by_desc:
  "insert_by (\<lambda>a b. fsub (f b) (f a)) x ys = insort_key (\<lambda>e. - f e) x ys"
  by (induction ys) (simp_all add: fsub_sign)

lemma Array_sort_desc:
  "Array_sort (\<lambda>a b. fsub (f b) (f a)) xs = sort_key (\<lambda>e. - f e) xs"
  by (induction xs) (simp_all add: Array_sort_def insert_by_desc)

lemma insort_key_map:
  "insort_key f (g x) (map g ys) = map g (insort_key (\<lambda>e. f (g e)) x ys)"
  by (induction ys) simp_all

lemma sort_key_map:
  "sort_key f (map g xs) = map g (sort_key (\<lambda>e. f (g e)) xs)"
  by (induction xs) (simp_all add: insort_key_map)

lemma sorted_desc:
  "sorted_wrt (\<lambda>a b. f a \<ge> f b) (sort_key (\<lambda>e. - f e) xs)"
  for f :: "'a \<Rightarrow> rat"
proof -
  have "sorted (map (\<lambda>e. - f e) (sort_key (\<lambda>e. - f e) xs))"
    by (rule sorted_sort_key)
  then show ?thesis by (simp add: sorted_wrt_map)
qed

lemma precedes_in_set: "precedes x y xs \<Longrightarrow> x \<in> set xs \<and> y \<in> set xs"
  by (induction xs) auto

lemma precedes_nth:
  "i < j \<Longrightarrow> j < length xs \<Longrightarrow> precedes (xs ! i) (xs ! j) xs"
proof (induction xs arbitrary: i j)
  case Nil then show ?case by simp
next
  case (Cons z zs)
  show ?case
  proof (cases i)
    case 0
    with Cons.prems show ?thesis by (cases j) simp_all
  next
    case (Suc i')
    with Cons.prems obtain j' where "j = Suc j'" by (cases j) simp_all
    with Suc Cons.prems Cons.IH[of i' j'] show ?thesis by simp
  qed
qed

lemma precedes_filter_into:
  "P x \<Longrightarrow> P y \<Longrightarrow> precedes x y xs \<Longrightarrow> precedes x y (filter P xs)"
  by (induction xs) auto

lemma precedes_filter_from:
  "precedes x y (filter P xs) \<Longrightarrow> precedes x y xs"
  by (induction xs) (auto split: if_splits)

lemma precedes_map:
  "precedes x y xs \<Longrightarrow> precedes (f x) (f y) (map f xs)"
  by (induction xs) auto

lemma precedes_snoc:
  "precedes x y (xs @ [z]) = (precedes x y xs \<or> (x \<in> set xs \<and> y = z))"
  by (induction xs) auto

lemma precedes_stable:
  assumes "precedes x y (sort_key f xs)" and "f x = f y"
  shows "precedes x y xs"
proof -
  from assms have "precedes x y (filter (\<lambda>e. f e = f x) (sort_key f xs))"
    by (intro precedes_filter_into) simp_all
  then have "precedes x y (filter (\<lambda>e. f e = f x) xs)"
    by (simp only: sort_key_stable)
  then show ?thesis by (rule precedes_filter_from)
qed

lemma map_of_Map_set: "map_of (Map_set m k v) = (map_of m)(k \<mapsto> v)"
  by (induction m) (auto simp: fun_eq_iff)

lemma keys_Map_set:
  "map fst (Map_set m k v) = (if k \<in> set (map fst m) then map fst m else map fst m @ [k])"
  by (induction m) force+

lemma map_Map_set:
  "map (\<lambda>kv. (fst kv, f (snd kv))) (Map_set m k v) = Map_set (map (\<lambda>kv. (fst kv, f (snd kv))) m) k (f v)"
  by (induction m) auto

lemma map_of_map_snd:
  "map_of (map (\<lambda>kv. (fst kv, f (snd kv))) m) k = map_option f (map_of m k)"
  by (induction m) auto

lemma takeWhile_stops:
  "x \<in> set xs \<Longrightarrow> \<not> P x \<Longrightarrow> length (takeWhile P xs) < length xs"
  by (induction xs) auto

lemma distinct_map_insort_key:
  "distinct (map g (insort_key f x xs)) = (g x \<notin> g ` set xs \<and> distinct (map g xs))"
  by (induction xs) (auto simp: set_insort_key)

lemma distinct_map_sort_key:
  "distinct (map g (sort_key f xs)) = distinct (map g xs)"
  by (induction xs) (simp_all add: distinct_map_insort_key)

lemma keys_totalStep:
  "map fst (totalStep add m ka) =
     (if fst ka \<in> set (map fst m) then map fst m else map fst m @ [fst ka])"
  by (simp add: totalStep_def keys_Map_set split: option.splits)

lemma set_keys_totalStep:
  "set (map fst (totalStep add m ka)) = insert (fst ka) (set (map fst m))"
  by (simp only: keys_totalStep) auto

lemma set_keys_totals:
  "set (map fst (foldl (totalStep add) m kas)) = set (map fst m) \<union> set (map fst kas)"
proof (induction kas arbitrary: m)
  case Nil show ?case by simp
next
  case (Cons ka kas)
  have "set (map fst (foldl (totalStep add) (totalStep add m ka) kas)) =
      set (map fst (totalStep add m ka)) \<union> set (map fst kas)"
    by (rule Cons)
  then show ?case by (simp only: set_keys_totalStep foldl.simps) auto
qed

lemma distinct_totalStep:
  "distinct (map fst m) \<Longrightarrow> distinct (map fst (totalStep add m ka))"
  by (simp add: keys_totalStep)

lemma distinct_totals:
  "distinct (map fst m) \<Longrightarrow> distinct (map fst (foldl (totalStep add) m kas))"
  by (induction kas arbitrary: m) (simp_all add: distinct_totalStep del: map_map)

lemma map_of_totalStep:
  "map_of (totalStep add m ka) =
     (map_of m)(fst ka \<mapsto> (case map_of m (fst ka) of Some s \<Rightarrow> add s (snd ka) | None \<Rightarrow> snd ka))"
  by (simp add: totalStep_def map_of_Map_set split: option.splits)

lemma map_of_totals:
  "map_of (foldl (totalStep add) m kas) k =
     (case map_of m k of
        Some s \<Rightarrow> Some (foldl add s (map snd (filter (\<lambda>ka. fst ka = k) kas)))
      | None \<Rightarrow>
          (case map snd (filter (\<lambda>ka. fst ka = k) kas) of
             [] \<Rightarrow> None
           | a # as \<Rightarrow> Some (foldl add a as)))"
proof (induction kas arbitrary: m)
  case Nil show ?case by (simp split: option.splits)
next
  case (Cons ka kas)
  show ?case
    by (simp only: foldl.simps Cons[of "totalStep add m ka"] map_of_totalStep)
      (auto split: option.splits list.splits)
qed

subsection \<open>The keys and values of the map of a page\<close>

lemma keyAmounts_snoc:
  "keyAmounts (ts @ [t]) =
     (if categorised t then keyAmounts ts @ [(category_id t, amount t)] else keyAmounts ts)"
  by (simp add: keyAmounts_def)

lemma set_categoryKeys:
  "set (categoryKeys ts) = category_id ` {t \<in> set ts. categorised t}"
proof -
  have "set (categoryKeys ts) = set (map fst (keyAmounts ts))"
    using set_keys_totals[where m = "[]" and kas = "keyAmounts ts" and add = fadd] by (simp add: categoryKeys_def)
  also have "\<dots> = category_id ` {t \<in> set ts. categorised t}"
    by (force simp: keyAmounts_def)
  finally show ?thesis .
qed

lemma categoryKeys_snoc:
  "categoryKeys (ts @ [t]) =
     (if categorised t \<and> category_id t \<notin> set (categoryKeys ts)
      then categoryKeys ts @ [category_id t] else categoryKeys ts)"
  by (simp add: categoryKeys_def keyAmounts_snoc keys_totalStep del: map_map)

lemma firstSeen_seen:
  assumes "k \<in> set (categoryKeys ts)"
  shows "firstSeen k (ts @ us) = firstSeen k ts" and "firstSeen k ts < length ts"
proof -
  from assms obtain t where t: "t \<in> set ts" "categorised t" "category_id t = k"
    by (auto simp: set_categoryKeys)
  from t show "firstSeen k (ts @ us) = firstSeen k ts"
    unfolding firstSeen_def by (subst takeWhile_append1[of t]) simp_all
  from t show "firstSeen k ts < length ts"
    unfolding firstSeen_def by (intro takeWhile_stops[of t]) simp_all
qed

lemma firstSeen_unseen:
  assumes "k \<notin> set (categoryKeys ts)"
  shows "length ts \<le> firstSeen k (ts @ us)"
proof -
  from assms have "\<And>t. t \<in> set ts \<Longrightarrow> \<not> (categorised t \<and> category_id t = k)"
    by (auto simp: set_categoryKeys)
  then have "takeWhile (\<lambda>t. \<not> (categorised t \<and> category_id t = k)) (ts @ us) =
      ts @ takeWhile (\<lambda>t. \<not> (categorised t \<and> category_id t = k)) us"
    by (rule takeWhile_append2)
  then show ?thesis by (simp add: firstSeen_def)
qed

lemma precedes_firstSeen:
  "precedes k1 k2 (categoryKeys ts) \<Longrightarrow> firstSeen k1 ts < firstSeen k2 ts"
proof (induction ts rule: rev_induct)
  case Nil
  then show ?case by (simp add: categoryKeys_def keyAmounts_def)
next
  case (snoc t ts)
  have old: "firstSeen k1 (ts @ [t]) < firstSeen k2 (ts @ [t])"
    if "precedes k1 k2 (categoryKeys ts)"
  proof -
    from that have "k1 \<in> set (categoryKeys ts)" "k2 \<in> set (categoryKeys ts)"
      using precedes_in_set by fastforce+
    then have "firstSeen k1 (ts @ [t]) = firstSeen k1 ts"
      "firstSeen k2 (ts @ [t]) = firstSeen k2 ts"
      by (simp_all add: firstSeen_seen(1))
    with snoc.IH[OF that] show ?thesis by simp
  qed
  show ?case
  proof (cases "categorised t \<and> category_id t \<notin> set (categoryKeys ts)")
    case False
    with snoc.prems have "precedes k1 k2 (categoryKeys ts)"
      by (simp add: categoryKeys_snoc)
    then show ?thesis by (rule old)
  next
    case True
    with snoc.prems have "precedes k1 k2 (categoryKeys ts @ [category_id t])"
      by (simp add: categoryKeys_snoc)
    then consider "precedes k1 k2 (categoryKeys ts)"
      | "k1 \<in> set (categoryKeys ts)" "k2 = category_id t"
      by (auto simp: precedes_snoc)
    then show ?thesis
    proof cases
      case 1 then show ?thesis by (rule old)
    next
      case 2
      from 2(1) have "firstSeen k1 (ts @ [t]) = firstSeen k1 ts" "firstSeen k1 ts < length ts"
        by (rule firstSeen_seen)+
      moreover from True 2(2) have "length ts \<le> firstSeen k2 (ts @ [t])"
        by (intro firstSeen_unseen) simp
      ultimately show ?thesis by simp
    qed
  qed
qed

lemma categorised_filter:
  "filter (\<lambda>t. txn_type t = Expense \<and> category t \<noteq> None) ts = filter categorised ts"
  by (rule filter_cong) (simp_all add: categorised_def)

lemma Budgets_step_totals:
  "map (\<lambda>kv. (fst kv, spent (snd kv))) (Budgets_breakdownStep m t) =
     totalStep fadd (map (\<lambda>kv. (fst kv, spent (snd kv))) m) (category_id t, amount t)"
  by (simp add: Budgets_breakdownStep_def totalStep_def Map_get_def map_of_map_snd map_Map_set
      split: option.splits)

lemma Budgets_fold_totals:
  "map (\<lambda>kv. (fst kv, spent (snd kv))) (foldl Budgets_breakdownStep m ts) =
     foldl (totalStep fadd) (map (\<lambda>kv. (fst kv, spent (snd kv))) m)
       (map (\<lambda>t. (category_id t, amount t)) ts)"
  by (induction ts arbitrary: m) (simp_all add: Budgets_step_totals)

lemma Budgets_map_totals:
  "map (\<lambda>kv. (fst kv, spent (snd kv))) (Budgets_breakdownMap ts) =
     foldl (totalStep fadd) [] (keyAmounts ts)"
  using Budgets_fold_totals[of "[]" "filter categorised ts"]
  by (simp only: Budgets_breakdownMap_def keyAmounts_def categorised_filter list.map)

lemma Dashboard_step_totals:
  "map (\<lambda>kv. (fst kv, ct_amount (snd kv))) (Dashboard_totalsStep m t) =
     totalStep fadd (map (\<lambda>kv. (fst kv, ct_amount (snd kv))) m) (category_id t, amount t)"
  by (simp add: Dashboard_totalsStep_def totalStep_def Map_get_def map_of_map_snd map_Map_set
      split: option.splits)

lemma Dashboard_fold_totals:
  "map (\<lambda>kv. (fst kv, ct_amount (snd kv))) (foldl Dashboard_totalsStep m ts) =
     foldl (totalStep fadd) (map (\<lambda>kv. (fst kv, ct_amount (snd kv))) m)
       (map (\<lambda>t. (category_id t, amount t)) ts)"
  by (induction ts arbitrary: m) (simp_all add: Dashboard_step_totals)

lemma Dashboard_map_totals:
  "map (\<lambda>kv. (fst kv, ct_amount (snd kv))) (Dashboard_categoryTotals ts) =
     foldl (totalStep fadd) [] (keyAmounts ts)"
  using Dashboard_fold_totals[of "[]" "filter categorised ts"]
  by (simp only: Dashboard_categoryTotals_def Let_def keyAmounts_def categorised_filter list.map)

lemma Budgets_keys: "map fst (Budgets_breakdownMap ts) = categoryKeys ts"
proof -
  have "map fst (map (\<lambda>kv. (fst kv, spent (snd kv))) (Budgets_breakdownMap ts)) = categoryKeys ts"
    by (simp only: Budgets_map_totals categoryKeys_def)
  then show ?thesis by (simp add: comp_def)
qed

lemma Dashboard_keys: "map fst (Dashboard_categoryTotals ts) = categoryKeys ts"
proof -
  have "map fst (map (\<lambda>kv. (fst kv, ct_amount (snd kv))) (Dashboard_categoryTotals ts)) =
      categoryKeys ts"
    by (simp only: Dashboard_map_totals categoryKeys_def)
  then show ?thesis by (simp add: comp_def)
qed

lemma distinct_categoryKeys: "distinct (categoryKeys ts)"
  unfolding categoryKeys_def by (rule distinct_totals) simp

lemma keyAmounts_filter:
  "map snd (filter (\<lambda>ka. fst ka = k) (keyAmounts ts)) =
     map amount (filter (\<lambda>t. categorised t \<and> category_id t = k) ts)"
  by (induction ts) (simp_all add: keyAmounts_def)

lemma totals_amount:
  assumes "(k, a) \<in> set (foldl (totalStep fadd) [] (keyAmounts ts))"
  shows "a = categoryAmount k ts"
proof -
  have d: "distinct (map fst (foldl (totalStep fadd) [] (keyAmounts ts)))"
    by (rule distinct_totals) simp
  with assms have "map_of (foldl (totalStep fadd) [] (keyAmounts ts)) k = Some a"
    by simp
  then have "(case map amount (filter (\<lambda>t. categorised t \<and> category_id t = k) ts) of
       [] \<Rightarrow> None | a # as \<Rightarrow> Some (foldl fadd a as)) = Some a"
    by (simp add: map_of_totals keyAmounts_filter)
  then show ?thesis
    by (cases "map amount (filter (\<lambda>t. categorised t \<and> category_id t = k) ts)")
      (simp_all add: categoryAmount_def)
qed

lemma Budgets_entry_amount:
  assumes "(k, e) \<in> set (Budgets_breakdownMap ts)"
  shows "spent e = categoryAmount k ts"
proof -
  from assms have "(k, spent e) \<in> set (map (\<lambda>kv. (fst kv, spent (snd kv))) (Budgets_breakdownMap ts))"
    by force
  then have "(k, spent e) \<in> set (foldl (totalStep fadd) [] (keyAmounts ts))"
    by (simp only: Budgets_map_totals)
  then show ?thesis by (rule totals_amount)
qed

lemma Dashboard_entry_amount:
  assumes "(k, e) \<in> set (Dashboard_categoryTotals ts)"
  shows "ct_amount e = categoryAmount k ts"
proof -
  from assms have "(k, ct_amount e) \<in> set (map (\<lambda>kv. (fst kv, ct_amount (snd kv))) (Dashboard_categoryTotals ts))"
    by force
  then have "(k, ct_amount e) \<in> set (foldl (totalStep fadd) [] (keyAmounts ts))"
    by (simp only: Dashboard_map_totals)
  then show ?thesis by (rule totals_amount)
qed

lemma totals_values:
  "map snd (foldl (totalStep fadd) [] (keyAmounts ts)) =
     map (\<lambda>k. categoryAmount k ts) (categoryKeys ts)"
proof -
  have "snd kv = categoryAmount (fst kv) ts"
    if "kv \<in> set (foldl (totalStep fadd) [] (keyAmounts ts))" for kv
  proof -
    from that have "(fst kv, snd kv) \<in> set (foldl (totalStep fadd) [] (keyAmounts ts))"
      by simp
    then show ?thesis by (rule totals_amount)
  qed
  then have "map snd (foldl (totalStep fadd) [] (keyAmounts ts)) =
      map (\<lambda>kv. categoryAmount (fst kv) ts) (foldl (totalStep fadd) [] (keyAmounts ts))"
    by (intro map_cong refl)
  then show ?thesis
    by (simp only: categoryKeys_def map_map comp_def)
qed

lemma Dashboard_values:
  "map ct_amount (Map_values (Dashboard_categoryTotals ts)) =
     map (\<lambda>k. categoryAmount k ts) (categoryKeys ts)"
proof -
  have "map snd (map (\<lambda>kv. (fst kv, ct_amount (snd kv))) (Dashboard_categoryTotals ts)) =
      map (\<lambda>k. categoryAmount k ts) (categoryKeys ts)"
    by (simp only: Dashboard_map_totals totals_values)
  then show ?thesis by (simp add: Map_values_def comp_def)
qed

lemma foldl_fadd_map:
  "foldl (\<lambda>sum x. fadd sum (f x)) a xs = foldl fadd a (map f xs)"
  by (induction xs arbitrary: a) simp_all

lemma Dashboard_total:
  "foldl (\<lambda>sum c. fadd sum (ct_amount c)) 0 (Map_values (Dashboard_categoryTotals ts)) =
     categorisedTotal ts"
  by (simp only: foldl_fadd_map[of ct_amount] Dashboard_values categorisedTotal_def sumFrom0_def)

lemma Budgets_stats_sums:
  "bs_income (Budgets_stats ts profile) = sumOfKind Income ts"
  "bs_expenses (Budgets_stats ts profile) = sumOfKind Expense ts"
  by (simp_all add: Budgets_stats_def sumOfKind_def sumFrom0_def foldl_fadd_map[of amount])

lemma Dashboard_stats_sums:
  "ds_expenses (Dashboard_stats ts profile mi) = sumOfKind Expense ts"
  "ds_income (Dashboard_stats ts profile mi) = (if mi > 0 then mi else sumOfKind Income ts)"
  "ds_balance (Dashboard_stats ts profile mi) =
     fsub (ds_income (Dashboard_stats ts profile mi)) (ds_expenses (Dashboard_stats ts profile mi))"
  by (simp_all add: Dashboard_stats_def sumOfKind_def sumFrom0_def foldl_fadd_map[of amount] Let_def)

subsection \<open>The sorted entries\<close>

lemma sorted_entries:
  fixes f :: "'v \<Rightarrow> rat" and E :: "(string option \<times> 'v) list"
  assumes keys: "map fst E = categoryKeys ts"
  defines "S \<equiv> sort_key (\<lambda>e. - f (snd e)) E"
  shows "distinct (map fst S)"
    and "sorted_wrt (\<lambda>a b. f a \<ge> f b) (map snd S)"
    and "\<forall>i j. i < j \<and> j < length S \<and> f (snd (S ! i)) = f (snd (S ! j)) \<longrightarrow>
           firstSeen (fst (S ! i)) ts < firstSeen (fst (S ! j)) ts"
proof -
  have "distinct (map fst E)"
    by (simp only: keys distinct_categoryKeys)
  then show "distinct (map fst S)"
    by (simp only: S_def distinct_map_sort_key)
  have "sorted_wrt (\<lambda>a b. f (snd a) \<ge> f (snd b)) S"
    unfolding S_def by (rule sorted_desc)
  then show "sorted_wrt (\<lambda>a b. f a \<ge> f b) (map snd S)"
    by (simp add: sorted_wrt_map)
  show "\<forall>i j. i < j \<and> j < length S \<and> f (snd (S ! i)) = f (snd (S ! j)) \<longrightarrow>
           firstSeen (fst (S ! i)) ts < firstSeen (fst (S ! j)) ts"
  proof (intro allI impI)
    fix i j
    assume h: "i < j \<and> j < length S \<and> f (snd (S ! i)) = f (snd (S ! j))"
    then have "precedes (S ! i) (S ! j) S" by (intro precedes_nth) simp_all
    moreover from h have "- f (snd (S ! i)) = - f (snd (S ! j))" by simp
    ultimately have "precedes (S ! i) (S ! j) E"
      unfolding S_def by (rule precedes_stable)
    then have "precedes (fst (S ! i)) (fst (S ! j)) (map fst E)"
      by (rule precedes_map)
    then have "precedes (fst (S ! i)) (fst (S ! j)) (categoryKeys ts)"
      by (simp only: keys)
    then show "firstSeen (fst (S ! i)) ts < firstSeen (fst (S ! j)) ts"
      by (rule precedes_firstSeen)
  qed
qed

lemma Budgets_sortedEntries_eq:
  "Budgets_sortedEntries ts = sort_key (\<lambda>e. - spent (snd e)) (Budgets_breakdownMap ts)"
  unfolding Budgets_sortedEntries_def
  by (rule Array_sort_desc[where f = "\<lambda>e. spent (snd e)"])

lemma Budgets_categoryBreakdown_keyed:
  "Budgets_categoryBreakdown ts = map snd (Budgets_sortedEntries ts)"
  by (simp only: Budgets_categoryBreakdown_def Array_sort_desc Map_values_def sort_key_map
      Budgets_sortedEntries_eq)

lemma Dashboard_categorySpending_eq:
  "Dashboard_categorySpending ts =
     sort_key (\<lambda>e. - spending_amount e)
       (map (Dashboard_spendingOf (categorisedTotal ts)) (Map_values (Dashboard_categoryTotals ts)))"
  by (simp only: Dashboard_categorySpending_def Let_def Dashboard_total Array_sort_desc)

lemma Dashboard_sortedEntries_eq:
  "Dashboard_sortedEntries ts = sort_key (\<lambda>e. - spending_amount (snd e)) (Dashboard_entries ts)"
  unfolding Dashboard_sortedEntries_def Let_def Dashboard_total Dashboard_entries_def
  by (rule Array_sort_desc[where f = "\<lambda>e. spending_amount (snd e)"])

lemma Dashboard_categorySpending_keyed:
  "Dashboard_categorySpending ts = map snd (Dashboard_sortedEntries ts)"
proof -
  have "map (Dashboard_spendingOf (categorisedTotal ts)) (Map_values (Dashboard_categoryTotals ts)) =
      map snd (Dashboard_entries ts)"
    by (simp add: Map_values_def Dashboard_entries_def comp_def)
  then show ?thesis
    by (simp only: Dashboard_categorySpending_eq sort_key_map Dashboard_sortedEntries_eq)
qed

lemma Dashboard_entries_keys: "map fst (Dashboard_entries ts) = categoryKeys ts"
  by (simp add: Dashboard_entries_def comp_def flip: Dashboard_keys)

lemma Budgets_sorted_amount:
  assumes "ke \<in> set (Budgets_sortedEntries ts)"
  shows "spent (snd ke) = categoryAmount (fst ke) ts"
proof -
  from assms have "(fst ke, snd ke) \<in> set (Budgets_breakdownMap ts)"
    by (simp add: Budgets_sortedEntries_eq)
  then show ?thesis by (rule Budgets_entry_amount)
qed

lemma Dashboard_sorted_amount:
  assumes "ke \<in> set (Dashboard_sortedEntries ts)"
  shows "spending_amount (snd ke) = categoryAmount (fst ke) ts"
proof -
  from assms obtain kv where kv: "kv \<in> set (Dashboard_categoryTotals ts)"
    and ke: "ke = (fst kv, Dashboard_spendingOf (categorisedTotal ts) (snd kv))"
    by (auto simp: Dashboard_sortedEntries_eq Dashboard_entries_def)
  from kv have "ct_amount (snd kv) = categoryAmount (fst kv) ts"
    by (intro Dashboard_entry_amount) simp
  with ke show ?thesis by (simp add: Dashboard_spendingOf_def)
qed

subsection \<open>Sums when no addition rounds\<close>

lemma exactSums_subseq:
  "exactSums xs \<Longrightarrow> subseq ys xs \<Longrightarrow> round64 (sum_list ys) = sum_list ys"
  by (simp add: exactSums_def)

lemma exactSums_mono:
  "exactSums xs \<Longrightarrow> subseq ys xs \<Longrightarrow> exactSums ys"
  unfolding exactSums_def using subseq_order.trans by fastforce

lemma sumFrom0_exact:
  assumes "\<And>ys. prefix ys xs \<Longrightarrow> round64 (sum_list ys) = sum_list ys"
  shows "sumFrom0 xs = sum_list xs"
  using assms
proof (induction xs rule: rev_induct)
  case Nil
  show ?case by (simp add: sumFrom0_def)
next
  case (snoc x xs)
  have "sumFrom0 xs = sum_list xs"
    by (rule snoc.IH) (simp add: snoc.prems)
  then have "sumFrom0 (xs @ [x]) = round64 (sum_list (xs @ [x]))"
    by (simp add: sumFrom0_def fadd_def)
  also have "\<dots> = sum_list (xs @ [x])"
    by (rule snoc.prems) simp
  finally show ?case .
qed

lemma sumFrom0_exactSums:
  assumes "exactSums xs"
  shows "sumFrom0 xs = sum_list xs"
proof (rule sumFrom0_exact)
  fix ys assume "prefix ys xs"
  then have "subseq ys xs" by (rule prefix_imp_subseq)
  with assms show "round64 (sum_list ys) = sum_list ys" by (rule exactSums_subseq)
qed

lemma sumInOrder_exactSums:
  assumes "exactSums xs"
  shows "sumInOrder xs = sum_list xs"
proof (cases xs)
  case Nil then show ?thesis by simp
next
  case (Cons a as)
  have "foldl fadd a bs = a + sum_list bs" if "prefix bs as" for bs
    using that
  proof (induction bs rule: rev_induct)
    case Nil show ?case by simp
  next
    case (snoc b bs)
    from snoc.prems have p: "prefix bs as"
      using prefix_order.dual_order.trans prefixI by (metis append.assoc prefixE)
    from snoc.prems have "prefix (a # bs @ [b]) xs" by (simp add: Cons)
    then have "subseq (a # bs @ [b]) xs" by (rule prefix_imp_subseq)
    with assms have "round64 (sum_list (a # bs @ [b])) = sum_list (a # bs @ [b])"
      by (rule exactSums_subseq)
    with snoc.IH[OF p] show ?case by (simp add: fadd_def add.assoc)
  qed
  from this[of as] show ?thesis by (simp add: Cons)
qed

lemma subseq_filter_and:
  "subseq (map f (filter (\<lambda>t. P t \<and> Q t) ts)) (map f (filter P ts))"
proof -
  have "filter (\<lambda>t. P t \<and> Q t) ts = filter Q (filter P ts)"
    by (simp add: conj_commute)
  moreover have "subseq (map f (filter Q (filter P ts))) (map f (filter P ts))"
    by (intro subseq_map subseq_filter_left)
  ultimately show ?thesis by (simp only:)
qed

lemma categorised_subseq_expenses:
  "subseq (map amount (filter categorised ts)) (map amount (filter (\<lambda>t. txn_type t = Expense) ts))"
proof -
  have "filter categorised ts = filter (\<lambda>t. txn_type t = Expense \<and> category t \<noteq> None) ts"
    by (rule filter_cong) (simp_all add: categorised_def)
  then show ?thesis by (simp only: subseq_filter_and)
qed

lemma categoryAmount_exact:
  assumes "exactSums (map amount (filter categorised ts))"
  shows "categoryAmount k ts =
     sum_list (map amount (filter (\<lambda>t. categorised t \<and> category_id t = k) ts))"
  unfolding categoryAmount_def
  by (intro sumInOrder_exactSums exactSums_mono[OF assms] subseq_filter_and)

lemma sum_filter_disjoint:
  "(\<And>t. \<not> (A t \<and> B t)) \<Longrightarrow>
   sum_list (map f (filter (\<lambda>t. A t \<or> B t) ts)) =
     sum_list (map f (filter A ts)) + sum_list (map f (filter B ts))"
  for f :: "'a \<Rightarrow> rat"
  by (induction ts) auto

lemma sum_over_keys:
  "distinct ks \<Longrightarrow>
   sum_list (map (\<lambda>k. sum_list (map amount (filter (\<lambda>t. categorised t \<and> category_id t = k) ts))) ks) =
     sum_list (map amount (filter (\<lambda>t. categorised t \<and> category_id t \<in> set ks) ts))"
proof (induction ks)
  case Nil show ?case by simp
next
  case (Cons k ks)
  have "filter (\<lambda>t. categorised t \<and> category_id t \<in> set (k # ks)) ts =
      filter (\<lambda>t. (categorised t \<and> category_id t = k) \<or>
                   (categorised t \<and> category_id t \<in> set ks)) ts"
    by (rule filter_cong) auto
  moreover have "\<not> ((categorised t \<and> category_id t = k) \<and>
      (categorised t \<and> category_id t \<in> set ks))" for t
    using Cons.prems by auto
  ultimately show ?case
    using Cons by (simp add: sum_filter_disjoint)
qed

lemma sums_of_categories:
  assumes ex: "exactSums (map amount (filter categorised ts))" and d: "distinct ks"
  shows "sum_list (map (\<lambda>k. categoryAmount k ts) ks) =
           sum_list (map amount (filter (\<lambda>t. categorised t \<and> category_id t \<in> set ks) ts))"
    and "sumFrom0 (map (\<lambda>k. categoryAmount k ts) ks) =
           sum_list (map amount (filter (\<lambda>t. categorised t \<and> category_id t \<in> set ks) ts))"
proof -
  have r: "map (\<lambda>k. categoryAmount k ts) ks' =
      map (\<lambda>k. sum_list (map amount (filter (\<lambda>t. categorised t \<and> category_id t = k) ts))) ks'"
    for ks'
    by (simp add: categoryAmount_exact[OF ex])
  show s: "sum_list (map (\<lambda>k. categoryAmount k ts) ks) =
      sum_list (map amount (filter (\<lambda>t. categorised t \<and> category_id t \<in> set ks) ts))"
    by (simp only: r sum_over_keys[OF d])
  have "sumFrom0 (map (\<lambda>k. categoryAmount k ts) ks) = sum_list (map (\<lambda>k. categoryAmount k ts) ks)"
  proof (rule sumFrom0_exact)
    fix ys assume pre: "prefix ys (map (\<lambda>k. categoryAmount k ts) ks)"
    from prefix_map_rightE[OF pre]
    obtain ks' where p: "prefix ks' ks" and ys: "ys = map (\<lambda>k. categoryAmount k ts) ks'"
      by blast
    from p d have "distinct ks'" by (auto elim!: prefixE)
    then have "sum_list ys =
        sum_list (map amount (filter (\<lambda>t. categorised t \<and> category_id t \<in> set ks') ts))"
      by (simp only: ys r sum_over_keys)
    moreover have "round64 (sum_list (map amount (filter (\<lambda>t. categorised t \<and> category_id t \<in> set ks') ts))) =
        sum_list (map amount (filter (\<lambda>t. categorised t \<and> category_id t \<in> set ks') ts))"
      by (intro exactSums_subseq[OF ex] subseq_filter_and)
    ultimately show "round64 (sum_list ys) = sum_list ys" by simp
  qed
  with s show "sumFrom0 (map (\<lambda>k. categoryAmount k ts) ks) =
      sum_list (map amount (filter (\<lambda>t. categorised t \<and> category_id t \<in> set ks) ts))"
    by simp
qed

lemma all_categories:
  assumes "set ks = set (categoryKeys ts)"
  shows "filter (\<lambda>t. categorised t \<and> category_id t \<in> set ks) ts = filter categorised ts"
  by (rule filter_cong) (auto simp: assms set_categoryKeys)

lemma Budgets_amounts:
  "map spent (Budgets_categoryBreakdown ts) =
     map (\<lambda>k. categoryAmount k ts) (map fst (Budgets_sortedEntries ts))"
proof -
  have "map spent (map snd (Budgets_sortedEntries ts)) =
      map (\<lambda>ke. categoryAmount (fst ke) ts) (Budgets_sortedEntries ts)"
    unfolding map_map comp_def by (intro map_cong refl Budgets_sorted_amount)
  then show ?thesis by (simp add: Budgets_categoryBreakdown_keyed comp_def)
qed

lemma Dashboard_amounts:
  "map spending_amount (Dashboard_categorySpending ts) =
     map (\<lambda>k. categoryAmount k ts) (map fst (Dashboard_sortedEntries ts))"
proof -
  have "map spending_amount (map snd (Dashboard_sortedEntries ts)) =
      map (\<lambda>ke. categoryAmount (fst ke) ts) (Dashboard_sortedEntries ts)"
    unfolding map_map comp_def by (intro map_cong refl Dashboard_sorted_amount)
  then show ?thesis by (simp add: Dashboard_categorySpending_keyed comp_def)
qed

lemma Budgets_sorted_keys:
  "distinct (map fst (Budgets_sortedEntries ts))"
  "set (map fst (Budgets_sortedEntries ts)) = set (categoryKeys ts)"
proof -
  show "distinct (map fst (Budgets_sortedEntries ts))"
    by (simp only: Budgets_sortedEntries_eq distinct_map_sort_key Budgets_keys
        distinct_categoryKeys)
  have "set (map fst (Budgets_sortedEntries ts)) = set (map fst (Budgets_breakdownMap ts))"
    by (simp add: Budgets_sortedEntries_eq)
  then show "set (map fst (Budgets_sortedEntries ts)) = set (categoryKeys ts)"
    by (simp only: Budgets_keys)
qed

lemma Dashboard_sorted_keys:
  "distinct (map fst (Dashboard_sortedEntries ts))"
  "set (map fst (Dashboard_sortedEntries ts)) = set (categoryKeys ts)"
proof -
  show "distinct (map fst (Dashboard_sortedEntries ts))"
    by (simp only: Dashboard_sortedEntries_eq distinct_map_sort_key Dashboard_entries_keys
        distinct_categoryKeys)
  have "set (map fst (Dashboard_sortedEntries ts)) = set (map fst (Dashboard_entries ts))"
    by (simp add: Dashboard_sortedEntries_eq)
  then show "set (map fst (Dashboard_sortedEntries ts)) = set (categoryKeys ts)"
    by (simp only: Dashboard_entries_keys)
qed

lemma breakdown_sums_exact:
  assumes "exactSums (map amount (filter (\<lambda>t. txn_type t = Expense) ts))"
  shows "sum_list (map spent (Budgets_categoryBreakdown ts)) = categorisedSum ts"
    and "sumFrom0 (map spent (Budgets_categoryBreakdown ts)) = categorisedSum ts"
    and "sum_list (map spending_amount (Dashboard_categorySpending ts)) = categorisedSum ts"
    and "sumFrom0 (map spending_amount (Dashboard_categorySpending ts)) = categorisedSum ts"
    and "categorisedTotal ts = categorisedSum ts"
    and "sumOfKind Expense ts = sum_list (map amount (filter (\<lambda>t. txn_type t = Expense) ts))"
proof -
  from assms have ex: "exactSums (map amount (filter categorised ts))"
    by (rule exactSums_mono) (rule categorised_subseq_expenses)
  note b = sums_of_categories[OF ex Budgets_sorted_keys(1)[of ts]]
  note d = sums_of_categories[OF ex Dashboard_sorted_keys(1)[of ts]]
  note k = sums_of_categories[OF ex distinct_categoryKeys[of ts]]
  show "sum_list (map spent (Budgets_categoryBreakdown ts)) = categorisedSum ts"
    by (simp only: Budgets_amounts b(1) all_categories[OF Budgets_sorted_keys(2)] categorisedSum_def)
  show "sumFrom0 (map spent (Budgets_categoryBreakdown ts)) = categorisedSum ts"
    by (simp only: Budgets_amounts b(2) all_categories[OF Budgets_sorted_keys(2)] categorisedSum_def)
  show "sum_list (map spending_amount (Dashboard_categorySpending ts)) = categorisedSum ts"
    by (simp only: Dashboard_amounts d(1) all_categories[OF Dashboard_sorted_keys(2)]
        categorisedSum_def)
  show "sumFrom0 (map spending_amount (Dashboard_categorySpending ts)) = categorisedSum ts"
    by (simp only: Dashboard_amounts d(2) all_categories[OF Dashboard_sorted_keys(2)]
        categorisedSum_def)
  show "categorisedTotal ts = categorisedSum ts"
    by (simp only: categorisedTotal_def k(2) all_categories[OF refl] categorisedSum_def)
  show "sumOfKind Expense ts = sum_list (map amount (filter (\<lambda>t. txn_type t = Expense) ts))"
    unfolding sumOfKind_def using assms by (rule sumFrom0_exactSums)
qed

lemma categorisedSum_all:
  assumes "\<forall>t\<in>set ts. txn_type t = Expense \<longrightarrow> category t \<noteq> None"
  shows "categorisedSum ts = sum_list (map amount (filter (\<lambda>t. txn_type t = Expense) ts))"
proof -
  have "filter categorised ts = filter (\<lambda>t. txn_type t = Expense) ts"
    using assms by (intro filter_cong) (auto simp: categorised_def)
  then show ?thesis by (simp add: categorisedSum_def)
qed

lemma categorisedSum_le:
  "\<forall>t\<in>set ts. txn_type t = Expense \<and> category t = None \<longrightarrow> 0 \<le> amount t \<Longrightarrow>
   categorisedSum ts \<le> sum_list (map amount (filter (\<lambda>t. txn_type t = Expense) ts))"
  unfolding categorisedSum_def
  by (induction ts) (auto simp: categorised_def)

lemma subseq_sum_le:
  fixes xs :: "rat list"
  assumes "subseq ys xs" and "\<forall>x\<in>set xs. 0 \<le> x"
  shows "sum_list ys \<le> sum_list xs"
  using assms
proof (induction rule: list_emb.induct)
  case (list_emb_Nil ys)
  then show ?case by (simp add: sum_list_nonneg)
next
  case (list_emb_Cons xs ys y)
  then show ?case by (simp add: add_increasing)
next
  case (list_emb_Cons2 x y xs ys)
  then show ?case by simp
qed

lemma subseq_set: "subseq ys xs \<Longrightarrow> set ys \<subseteq> set xs"
  by (induction rule: list_emb.induct) auto

lemma sum_list_Ints: "\<forall>x\<in>set xs. x \<in> \<int> \<Longrightarrow> sum_list xs \<in> \<int>"
  for xs :: "rat list"
  by (induction xs) simp_all

lemma exactSums_whole:
  fixes xs :: "rat list"
  assumes whole: "\<forall>x\<in>set xs. x \<in> \<int> \<and> 0 \<le> x" and bound: "sum_list xs \<le> 2 ^ 53"
  shows "exactSums xs"
  unfolding exactSums_def
proof
  fix ys assume "ys \<in> set (subseqs xs)"
  then have sub: "subseq ys xs" by simp
  with whole have ys: "\<forall>y\<in>set ys. y \<in> \<int> \<and> 0 \<le> y"
    using subseq_set by blast
  then have "sum_list ys \<in> \<int>" by (intro sum_list_Ints) simp
  then obtain n :: int where n: "sum_list ys = of_int n" by (rule Ints_cases)
  have "0 \<le> sum_list ys" using ys by (intro sum_list_nonneg) simp
  moreover have "sum_list ys \<le> 2 ^ 53"
    using subseq_sum_le[OF sub] whole bound by fastforce
  ultimately have "0 \<le> n" and "rat_of_int n \<le> of_int (2 ^ 53)" by (simp_all add: n)
  then have "0 \<le> n" and "n \<le> 2 ^ 53" by (simp_all only: of_int_le_iff)
  then have "\<bar>n\<bar> \<le> 2 ^ 53" by simp
  then show "round64 (sum_list ys) = sum_list ys"
    by (simp only: n round64_whole)
qed

subsection \<open>Evaluation of the samples\<close>

lemmas sample_defs = scenario_def partlyCategorised_def tied_def sampleTransaction_def
  food_def rent_def salary_def sampleCategory_def

lemmas page_defs = Budgets_categoryBreakdown_def Budgets_breakdownMap_def
  Budgets_breakdownStep_def Map_get_def Map_values_def Array_sort_def
  Dashboard_categorySpending_def Dashboard_categoryTotals_def Dashboard_totalsStep_def
  Dashboard_spendingOf_def Budgets_stats_def Dashboard_stats_def Budgets_percentage_def
  Budgets_sortedEntries_def Dashboard_sortedEntries_def Budgets_netSavings_def
  sumOfKind_def sumFrom0_def fadd_def fsub_def fmul_def fdiv_def round64_numeral round64_0
  round64_1 round64_minus round64_sign

lemma eval_scenario:
  "bs_income (Budgets_stats scenario None) = 200"
  "bs_expenses (Budgets_stats scenario None) = 100"
  "Budgets_netSavings (Budgets_stats scenario None) = 100"
  "ds_income (Dashboard_stats scenario None 0) = 200"
  "ds_expenses (Dashboard_stats scenario None 0) = 100"
  "ds_balance (Dashboard_stats scenario None 0) = 100"
  "ds_income (Dashboard_stats scenario None 500) = 500"
  "ds_balance (Dashboard_stats scenario None 500) = 400"
  "sumOfKind Income scenario = 200"
  "sumOfKind Expense scenario = 100"
  "sum_list (map spent (Budgets_categoryBreakdown scenario)) = 100"
  by (simp_all add: sample_defs page_defs)

lemma eval_partly:
  "map percentage (Dashboard_categorySpending partlyCategorised) = [100]"
  "map spending_amount (Dashboard_categorySpending partlyCategorised) = [60]"
  "sumOfKind Expense partlyCategorised = 100"
  "ds_expenses (Dashboard_stats partlyCategorised None 0) = 100"
  "bs_expenses (Budgets_stats partlyCategorised None) = 100"
  "percentage (hd (Dashboard_categorySpending partlyCategorised)) = 100"
  "spending_amount (hd (Dashboard_categorySpending partlyCategorised)) = 60"
  "sum_list (map spent (Budgets_categoryBreakdown partlyCategorised)) = 60"
  by (simp_all add: sample_defs page_defs)

lemma eval_partly_total:
  "categorisedTotal partlyCategorised = 60"
  by code_simp

lemma eval_percentages:
  "map (Budgets_percentage (Budgets_stats scenario None)) (Budgets_categoryBreakdown scenario) =
     [60, 40]"
  "map percentage (Dashboard_categorySpending scenario) = [60, 40]"
  by code_simp+

lemma eval_tied:
  "map fst (Budgets_sortedEntries tied) = [Some ''c3'', Some ''c2'', Some ''c1'']"
  "map spent (Budgets_categoryBreakdown tied) = [200, 60, 60]"
  "map spending_amount (Dashboard_categorySpending tied) = [200, 60, 60]"
  "firstSeen (Some ''c2'') tied = 0" "firstSeen (Some ''c1'') tied = 2"
  "length (Budgets_sortedEntries tied) = 3"
  "spent (snd (Budgets_sortedEntries tied ! 1)) = 60"
  "spent (snd (Budgets_sortedEntries tied ! 2)) = 60"
  by (simp_all add: sample_defs page_defs firstSeen_def categorised_def)

text \<open>
  The sample with cents, in the arithmetic of the language: the expenses add up to the
  double 1.3, the food entry holds 1.2000000000000002, and the entries add up to
  1.3000000000000003.
\<close>

lemma eval_cents:
  "bs_expenses (Budgets_stats cents None) = 5854679515581645 / 4503599627370496"
  "map spent (Budgets_categoryBreakdown cents) =
     [1351079888211149 / 1125899906842624, 3602879701896397 / 36028797018963968]"
  "categorisedTotal cents = 5854679515581646 / 4503599627370496"
  "map percentage (Dashboard_categorySpending cents) =
     [6495576385630523 / 70368744177664, 4330384257087015 / 562949953421312]"
  "map (Budgets_percentage (Budgets_stats cents None)) (Budgets_categoryBreakdown cents) =
     [6495576385630523 / 70368744177664, 8660768514174031 / 1125899906842624]"
  by code_simp+

lemma eval_cents_sum:
  "sumFrom0 [1351079888211149 / 1125899906842624, 3602879701896397 / 36028797018963968] =
     5854679515581646 / 4503599627370496"
  by code_simp

lemma eval_cents_order:
  "fdiv (fmul 100 (1351079888211149 / 1125899906842624))
     (5854679515581645 / 4503599627370496) = 1623894096407631 / 17592186044416"
  by code_simp

lemma eval_cents_categorised: "list_all categorised cents"
  by (simp add: cents_def sampleTransaction_def categorised_def)

subsection \<open>Totals\<close>

text \<open>
  Claim C2, as stated, fails on the Dashboard: its total income is the monthly income
  recorded for the month whenever that is positive, not the sum of the income
  transactions.
\<close>

theorem dashboard_income_counterexample:
  "ds_income (Dashboard_stats scenario None 500) = 500 \<and>
   sumOfKind Income scenario = 200 \<and>
   ds_income (Dashboard_stats scenario None 500) \<noteq> sumOfKind Income scenario"
  by (simp add: eval_scenario)

text \<open>
  Claim C2, amended. For every list of transactions, on the Budgets page the income is
  the sum of the amounts of the income transactions, the expenses are the sum of the
  amounts of the expense transactions and the net savings are income minus expenses; on
  the Dashboard the expenses are the same sum, the income is the monthly income of the
  month when that is positive and the sum of the amounts of the income transactions
  otherwise, and the balance is that income minus the expenses. On both pages
  income minus expenses equals the net. The sums are taken in the order of the input, and
  sums and differences are those of the arithmetic of the language.
\<close>

theorem aggregation_totals:
  "bs_income (Budgets_stats ts profile) = sumOfKind Income ts \<and>
   bs_expenses (Budgets_stats ts profile) = sumOfKind Expense ts \<and>
   Budgets_netSavings (Budgets_stats ts profile) =
     fsub (sumOfKind Income ts) (sumOfKind Expense ts) \<and>
   ds_expenses (Dashboard_stats ts profile monthlyIncome) = sumOfKind Expense ts \<and>
   ds_income (Dashboard_stats ts profile monthlyIncome) =
     (if monthlyIncome > 0 then monthlyIncome else sumOfKind Income ts) \<and>
   ds_balance (Dashboard_stats ts profile monthlyIncome) =
     fsub (ds_income (Dashboard_stats ts profile monthlyIncome))
       (ds_expenses (Dashboard_stats ts profile monthlyIncome))"
  by (simp add: Budgets_stats_sums Dashboard_stats_sums Budgets_netSavings_def)

theorem aggregation_totals_witness:
  "bs_income (Budgets_stats scenario None) = 200 \<and>
   bs_expenses (Budgets_stats scenario None) = 100 \<and>
   Budgets_netSavings (Budgets_stats scenario None) = 100 \<and>
   ds_income (Dashboard_stats scenario None 0) = 200 \<and>
   ds_balance (Dashboard_stats scenario None 0) = 100 \<and>
   ds_balance (Dashboard_stats scenario None 500) = 400"
  using aggregation_totals [of scenario None 0] aggregation_totals [of scenario None 500]
  by (simp add: eval_scenario)

subsection \<open>Percentages\<close>

text \<open>
  Claim C3, as stated, fails on the Dashboard when an expense has no category: the
  percentages there are taken of the categorised expenses only (60 of 60 is 100, where
  the claim has 60 of 100). And the pages compute (amount / total) * 100, which in the
  arithmetic of the language is not 100 * amount / total: for the sample with cents the
  Budgets page shows 92.3076923076923 for food, the formula of the claim gives
  92.30769230769232.
\<close>

theorem dashboard_percentage_counterexample:
  "map percentage (Dashboard_categorySpending partlyCategorised) = [100] \<and>
   map spending_amount (Dashboard_categorySpending partlyCategorised) = [60] \<and>
   sumOfKind Expense partlyCategorised = 100 \<and>
   ds_expenses (Dashboard_stats partlyCategorised None 0) = 100 \<and>
   percentage (hd (Dashboard_categorySpending partlyCategorised)) \<noteq>
     100 * spending_amount (hd (Dashboard_categorySpending partlyCategorised)) /
       sumOfKind Expense partlyCategorised \<and>
   map (Budgets_percentage (Budgets_stats cents None)) (Budgets_categoryBreakdown cents) =
     [6495576385630523 / 70368744177664, 8660768514174031 / 1125899906842624] \<and>
   fdiv (fmul 100 (1351079888211149 / 1125899906842624))
     (5854679515581645 / 4503599627370496) = 1623894096407631 / 17592186044416 \<and>
   (6495576385630523 / 70368744177664 :: rat) \<noteq> 1623894096407631 / 17592186044416"
  apply (simp only: eval_cents eval_cents_order)
  apply (simp add: eval_partly)
  done

text \<open>
  Claim C3, amended. On the Budgets page every breakdown entry has the percentage
  (spent / totalExpense) * 100, with totalExpense the sum over all expense transactions
  in the order of the input, when totalExpense is positive, and 0 otherwise. On the
  Dashboard every entry has the percentage (amount / T) * 100 when T is positive, and 0
  otherwise, where T adds the per-category sums of the expenses that have a category, in
  the order in which the categories are first met. Quotient, product and sums are those
  of the arithmetic of the language, so T need not equal the sum of the same amounts
  taken in the order of the input. No division by zero occurs.
\<close>

theorem category_percentages:
  "(\<forall>e \<in> set (Budgets_categoryBreakdown ts).
      Budgets_percentage (Budgets_stats ts profile) e =
        (if sumOfKind Expense ts > 0
         then fmul (fdiv (spent e) (sumOfKind Expense ts)) 100 else 0)) \<and>
   (\<forall>e \<in> set (Dashboard_categorySpending ts).
      percentage e =
        (if categorisedTotal ts > 0
         then fmul (fdiv (spending_amount e) (categorisedTotal ts)) 100 else 0)) \<and>
   categorisedTotal ts = sumFrom0 (map (\<lambda>k. categoryAmount k ts) (categoryKeys ts)) \<and>
   distinct (categoryKeys ts) \<and>
   set (categoryKeys ts) = category_id ` {t \<in> set ts. categorised t}"
proof (intro conjI ballI)
  fix e
  show "Budgets_percentage (Budgets_stats ts profile) e =
        (if sumOfKind Expense ts > 0
         then fmul (fdiv (spent e) (sumOfKind Expense ts)) 100 else 0)"
    by (simp add: Budgets_percentage_def Budgets_stats_sums)
next
  fix e
  assume "e \<in> set (Dashboard_categorySpending ts)"
  then obtain item where "e = Dashboard_spendingOf (categorisedTotal ts) item"
    by (auto simp: Dashboard_categorySpending_eq)
  then show "percentage e =
        (if categorisedTotal ts > 0
         then fmul (fdiv (spending_amount e) (categorisedTotal ts)) 100 else 0)"
    by (simp add: Dashboard_spendingOf_def)
next
  show "categorisedTotal ts = sumFrom0 (map (\<lambda>k. categoryAmount k ts) (categoryKeys ts))"
    by (rule categorisedTotal_def)
next
  show "distinct (categoryKeys ts)" by (rule distinct_categoryKeys)
next
  show "set (categoryKeys ts) = category_id ` {t \<in> set ts. categorised t}"
    by (rule set_categoryKeys)
qed

theorem category_percentages_witness:
  "map (Budgets_percentage (Budgets_stats scenario None)) (Budgets_categoryBreakdown scenario) =
     [60, 40] \<and>
   map percentage (Dashboard_categorySpending scenario) = [60, 40] \<and>
   map percentage (Dashboard_categorySpending partlyCategorised) = [100] \<and>
   categorisedTotal partlyCategorised = 60 \<and>
   categorisedTotal cents = 5854679515581646 / 4503599627370496 \<and>
   bs_expenses (Budgets_stats cents None) = 5854679515581645 / 4503599627370496 \<and>
   map percentage (Dashboard_categorySpending cents) =
     [6495576385630523 / 70368744177664, 4330384257087015 / 562949953421312] \<and>
   map (Budgets_percentage (Budgets_stats cents None)) (Budgets_categoryBreakdown cents) =
     [6495576385630523 / 70368744177664, 8660768514174031 / 1125899906842624]"
  using category_percentages [of scenario None] category_percentages [of partlyCategorised None]
    category_percentages [of cents None]
  by (simp add: eval_percentages eval_partly eval_partly_total eval_cents)

subsection \<open>Order of the breakdown\<close>

text \<open>
  Claim C6. For every list of transactions the per-category breakdown (of the Budgets page
  and of the Dashboard) is sorted in descending order of amount: it is the list of the
  values of the keyed entries, whose keys are distinct and whose amounts are the sums of
  the categorised expenses with that category id, added in the order of the input; and
  of two entries with equal amounts the one that stands first is the one whose category
  id is met first in the input.
\<close>

theorem breakdown_sorted_stable:
  "Budgets_categoryBreakdown ts = map snd (Budgets_sortedEntries ts) \<and>
   distinct (map fst (Budgets_sortedEntries ts)) \<and>
   (\<forall>ke \<in> set (Budgets_sortedEntries ts). spent (snd ke) = categoryAmount (fst ke) ts) \<and>
   sorted_wrt (\<lambda>a b. spent a \<ge> spent b) (Budgets_categoryBreakdown ts) \<and>
   (\<forall>i j. i < j \<and> j < length (Budgets_sortedEntries ts) \<and>
      spent (snd (Budgets_sortedEntries ts ! i)) = spent (snd (Budgets_sortedEntries ts ! j)) \<longrightarrow>
      firstSeen (fst (Budgets_sortedEntries ts ! i)) ts <
      firstSeen (fst (Budgets_sortedEntries ts ! j)) ts) \<and>
   Dashboard_categorySpending ts = map snd (Dashboard_sortedEntries ts) \<and>
   distinct (map fst (Dashboard_sortedEntries ts)) \<and>
   (\<forall>ke \<in> set (Dashboard_sortedEntries ts).
      spending_amount (snd ke) = categoryAmount (fst ke) ts) \<and>
   sorted_wrt (\<lambda>a b. spending_amount a \<ge> spending_amount b) (Dashboard_categorySpending ts) \<and>
   (\<forall>i j. i < j \<and> j < length (Dashboard_sortedEntries ts) \<and>
      spending_amount (snd (Dashboard_sortedEntries ts ! i)) =
      spending_amount (snd (Dashboard_sortedEntries ts ! j)) \<longrightarrow>
      firstSeen (fst (Dashboard_sortedEntries ts ! i)) ts <
      firstSeen (fst (Dashboard_sortedEntries ts ! j)) ts)"
proof -
  note b = sorted_entries[where f = spent, OF Budgets_keys[of ts], folded Budgets_sortedEntries_eq]
  note d = sorted_entries[where f = spending_amount, OF Dashboard_entries_keys[of ts],
      folded Dashboard_sortedEntries_eq]
  have b2: "sorted_wrt (\<lambda>a b. spent a \<ge> spent b) (Budgets_categoryBreakdown ts)"
    using b(2) by (simp only: Budgets_categoryBreakdown_keyed)
  have d2: "sorted_wrt (\<lambda>a b. spending_amount a \<ge> spending_amount b)
      (Dashboard_categorySpending ts)"
    using d(2) by (simp only: Dashboard_categorySpending_keyed)
  have b3: "\<forall>ke \<in> set (Budgets_sortedEntries ts). spent (snd ke) = categoryAmount (fst ke) ts"
    using Budgets_sorted_amount by blast
  have d3: "\<forall>ke \<in> set (Dashboard_sortedEntries ts).
      spending_amount (snd ke) = categoryAmount (fst ke) ts"
    using Dashboard_sorted_amount by blast
  from Budgets_categoryBreakdown_keyed[of ts] b(1) b3 b2 b(3)
    Dashboard_categorySpending_keyed[of ts] d(1) d3 d2 d(3)
  show ?thesis by (intro conjI)
qed

theorem breakdown_sorted_stable_witness:
  "map fst (Budgets_sortedEntries tied) = [Some ''c3'', Some ''c2'', Some ''c1''] \<and>
   map spent (Budgets_categoryBreakdown tied) = [200, 60, 60] \<and>
   map spending_amount (Dashboard_categorySpending tied) = [200, 60, 60] \<and>
   firstSeen (fst (Budgets_sortedEntries tied ! 1)) tied <
     firstSeen (fst (Budgets_sortedEntries tied ! 2)) tied \<and>
   firstSeen (Some ''c2'') tied = 0 \<and> firstSeen (Some ''c1'') tied = 2"
proof -
  have "(1::nat) < 2 \<and> 2 < length (Budgets_sortedEntries tied) \<and>
      spent (snd (Budgets_sortedEntries tied ! 1)) = spent (snd (Budgets_sortedEntries tied ! 2))"
    by (simp only: eval_tied) simp
  with breakdown_sorted_stable [of tied]
  have "firstSeen (fst (Budgets_sortedEntries tied ! 1)) tied <
      firstSeen (fst (Budgets_sortedEntries tied ! 2)) tied"
    by blast
  then show ?thesis by (simp add: eval_tied)
qed

subsection \<open>Sum of the breakdown\<close>

text \<open>
  Claim C7, as stated, fails because the additions of the language round: the breakdown
  adds the amounts category by category, the total adds them in the order of the input,
  and the two groupings round differently. With 0.1 on food, 0.1 on rent and 1.1 on food,
  every expense having a category, the total is 1.3 and the amounts of the breakdown add
  up to 1.3000000000000003 (also when they are added exactly): neither equal to the
  total nor at most the total.
\<close>

theorem breakdown_sum_counterexample:
  "list_all categorised cents \<and>
   bs_expenses (Budgets_stats cents None) = 5854679515581645 / 4503599627370496 \<and>
   map spent (Budgets_categoryBreakdown cents) =
     [1351079888211149 / 1125899906842624, 3602879701896397 / 36028797018963968] \<and>
   sumFrom0 (map spent (Budgets_categoryBreakdown cents)) =
     5854679515581646 / 4503599627370496 \<and>
   sumFrom0 (map spent (Budgets_categoryBreakdown cents)) \<noteq>
     bs_expenses (Budgets_stats cents None) \<and>
   \<not> sumFrom0 (map spent (Budgets_categoryBreakdown cents)) \<le>
     bs_expenses (Budgets_stats cents None) \<and>
   sum_list (map spent (Budgets_categoryBreakdown cents)) \<noteq>
     bs_expenses (Budgets_stats cents None) \<and>
   \<not> sum_list (map spent (Budgets_categoryBreakdown cents)) \<le>
     bs_expenses (Budgets_stats cents None)"
  by (simp add: eval_cents eval_cents_sum eval_cents_categorised)

text \<open>
  Claim C7, amended. Suppose no addition rounds on the amounts of the expense
  transactions: the exact sum of every selection of them is a number of the language.
  (That is so when they are whole, non-negative amounts whose sum is at most \<open>2 ^ 53\<close>;
  it is not so in general for amounts with cents.) Then, when every expense transaction
  has a category, the amounts of the breakdown add up to the total of the expenses; and
  when every expense transaction without a category has a non-negative amount, they add
  up to at most that total. Both hold whether the amounts of the breakdown are added
  exactly or in the arithmetic of the language, on the Budgets page and on the
  Dashboard.
\<close>

theorem breakdown_sum_total:
  "(((\<forall>x\<in>set (expenseAmounts ts). x \<in> \<int> \<and> 0 \<le> x) \<and> sum_list (expenseAmounts ts) \<le> 2 ^ 53) \<longrightarrow>
      exactSums (expenseAmounts ts)) \<and>
   (exactSums (expenseAmounts ts) \<longrightarrow>
      ((\<forall>t\<in>set ts. txn_type t = Expense \<longrightarrow> category t \<noteq> None) \<longrightarrow>
         sum_list (map spent (Budgets_categoryBreakdown ts)) =
           bs_expenses (Budgets_stats ts profile) \<and>
         sumFrom0 (map spent (Budgets_categoryBreakdown ts)) =
           bs_expenses (Budgets_stats ts profile) \<and>
         sum_list (map spending_amount (Dashboard_categorySpending ts)) =
           ds_expenses (Dashboard_stats ts profile monthlyIncome) \<and>
         sumFrom0 (map spending_amount (Dashboard_categorySpending ts)) =
           ds_expenses (Dashboard_stats ts profile monthlyIncome)) \<and>
      ((\<forall>t\<in>set ts. txn_type t = Expense \<and> category t = None \<longrightarrow> 0 \<le> amount t) \<longrightarrow>
         sum_list (map spent (Budgets_categoryBreakdown ts)) \<le>
           bs_expenses (Budgets_stats ts profile) \<and>
         sumFrom0 (map spent (Budgets_categoryBreakdown ts)) \<le>
           bs_expenses (Budgets_stats ts profile) \<and>
         sum_list (map spending_amount (Dashboard_categorySpending ts)) \<le>
           ds_expenses (Dashboard_stats ts profile monthlyIncome) \<and>
         sumFrom0 (map spending_amount (Dashboard_categorySpending ts)) \<le>
           ds_expenses (Dashboard_stats ts profile monthlyIncome)))"
proof (intro conjI impI)
  assume "(\<forall>x\<in>set (expenseAmounts ts). x \<in> \<int> \<and> 0 \<le> x) \<and> sum_list (expenseAmounts ts) \<le> 2 ^ 53"
  then show "exactSums (expenseAmounts ts)"
    by (intro exactSums_whole) simp_all
next
  assume ex: "exactSums (expenseAmounts ts)"
  note s = breakdown_sums_exact[OF ex[unfolded expenseAmounts_def]]
  {
    assume all: "\<forall>t\<in>set ts. txn_type t = Expense \<longrightarrow> category t \<noteq> None"
    note c = categorisedSum_all[OF all]
    show "sum_list (map spent (Budgets_categoryBreakdown ts)) =
        bs_expenses (Budgets_stats ts profile)"
      by (simp only: s Budgets_stats_sums c)
    show "sumFrom0 (map spent (Budgets_categoryBreakdown ts)) =
        bs_expenses (Budgets_stats ts profile)"
      by (simp only: s Budgets_stats_sums c)
    show "sum_list (map spending_amount (Dashboard_categorySpending ts)) =
        ds_expenses (Dashboard_stats ts profile monthlyIncome)"
      by (simp only: s Dashboard_stats_sums c)
    show "sumFrom0 (map spending_amount (Dashboard_categorySpending ts)) =
        ds_expenses (Dashboard_stats ts profile monthlyIncome)"
      by (simp only: s Dashboard_stats_sums c)
  }
  {
    assume nn: "\<forall>t\<in>set ts. txn_type t = Expense \<and> category t = None \<longrightarrow> 0 \<le> amount t"
    note c = categorisedSum_le[OF nn]
    show "sum_list (map spent (Budgets_categoryBreakdown ts)) \<le>
        bs_expenses (Budgets_stats ts profile)"
      using c by (simp only: s Budgets_stats_sums)
    show "sumFrom0 (map spent (Budgets_categoryBreakdown ts)) \<le>
        bs_expenses (Budgets_stats ts profile)"
      using c by (simp only: s Budgets_stats_sums)
    show "sum_list (map spending_amount (Dashboard_categorySpending ts)) \<le>
        ds_expenses (Dashboard_stats ts profile monthlyIncome)"
      using c by (simp only: s Dashboard_stats_sums)
    show "sumFrom0 (map spending_amount (Dashboard_categorySpending ts)) \<le>
        ds_expenses (Dashboard_stats ts profile monthlyIncome)"
      using c by (simp only: s Dashboard_stats_sums)
  }
qed

theorem breakdown_sum_total_witness:
  "exactSums (expenseAmounts scenario) \<and>
   sum_list (map spent (Budgets_categoryBreakdown scenario)) =
     bs_expenses (Budgets_stats scenario None) \<and>
   sumFrom0 (map spending_amount (Dashboard_categorySpending scenario)) =
     ds_expenses (Dashboard_stats scenario None 0) \<and>
   bs_expenses (Budgets_stats scenario None) = 100 \<and>
   sum_list (map spent (Budgets_categoryBreakdown partlyCategorised)) \<le>
     bs_expenses (Budgets_stats partlyCategorised None) \<and>
   sum_list (map spent (Budgets_categoryBreakdown partlyCategorised)) = 60"
proof -
  have whole: "(\<forall>x\<in>set (expenseAmounts scenario). x \<in> \<int> \<and> 0 \<le> x) \<and>
      sum_list (expenseAmounts scenario) \<le> 2 ^ 53"
    "(\<forall>x\<in>set (expenseAmounts partlyCategorised). x \<in> \<int> \<and> 0 \<le> x) \<and>
      sum_list (expenseAmounts partlyCategorised) \<le> 2 ^ 53"
    by (simp_all add: expenseAmounts_def sample_defs)
  have all: "\<forall>t\<in>set scenario. txn_type t = Expense \<longrightarrow> category t \<noteq> None"
    by (simp add: scenario_def sampleTransaction_def)
  have nonneg: "\<forall>t\<in>set partlyCategorised.
      txn_type t = Expense \<and> category t = None \<longrightarrow> 0 \<le> amount t"
    by (simp add: partlyCategorised_def sampleTransaction_def)
  from breakdown_sum_total [of scenario None 0] whole(1) all
  have "exactSums (expenseAmounts scenario)"
    "sum_list (map spent (Budgets_categoryBreakdown scenario)) =
      bs_expenses (Budgets_stats scenario None)"
    "sumFrom0 (map spending_amount (Dashboard_categorySpending scenario)) =
      ds_expenses (Dashboard_stats scenario None 0)"
    by blast+
  moreover from breakdown_sum_total [of partlyCategorised None 0] whole(2) nonneg
  have "sum_list (map spent (Budgets_categoryBreakdown partlyCategorised)) \<le>
      bs_expenses (Budgets_stats partlyCategorised None)"
    by blast
  ultimately show ?thesis
    by (simp add: eval_scenario eval_partly)
qed

end
